theory Spec2Isabelle
  imports Main "HOL-Library.Monad_Syntax"
begin

section \<open>Log-line parsing (\<^verbatim>\<open>parseNginxLog\<close>, main.go)\<close>

subsection \<open>The regular expression and Go's leftmost-first search\<close>

text \<open>
  Go strings are byte sequences, modelled as \<^typ>\<open>string\<close>.  The pattern of
  \<^verbatim>\<open>parseNginxLog\<close> is

  \<^verbatim>\<open>^(\S+) \S+ \S+ \[([^\]]+)\] "(\S+) ([^"]*) [^"]*" (\d+) (\d+) "([^"]*)" "([^"]*)".*$\<close>

  It is a sequence of single-character classes, each taken once or under a greedy
  \<^verbatim>\<open>*\<close> or \<^verbatim>\<open>+\<close>; every capture group encloses exactly one such
  repetition, so a group is a flag on its piece.  Every class is either an ASCII
  literal or the complement of a set of ASCII characters, and no two complemented
  classes are adjacent, so matching byte by byte gives the same groups as Go's
  matching rune by rune.  The class \<^verbatim>\<open>\S\<close> is the complement of tab, newline, form
  feed, carriage return and space; complemented classes match a newline, the dot does
  not; \<^verbatim>\<open>^\<close> and \<^verbatim>\<open>$\<close> match at the two ends of the text only.
\<close>

datatype cclass = Lit char | NotSpace | NotChar char | Digit | AnyNotNL

fun cmatch :: "cclass \<Rightarrow> char \<Rightarrow> bool" where
  "cmatch (Lit c) x = (x = c)"
| "cmatch NotSpace x = (x \<notin> set [CHR 0x09, CHR 0x0A, CHR 0x0C, CHR 0x0D, CHR '' ''])"
| "cmatch (NotChar c) x = (x \<noteq> c)"
| "cmatch Digit x = (x \<in> set ''0123456789'')"
| "cmatch AnyNotNL x = (x \<noteq> CHR 0x0A)"

datatype quant = Once | Star | Plus

datatype piece = Piece cclass quant bool

definition keep :: "bool \<Rightarrow> string \<Rightarrow> string list \<Rightarrow> string list" where
  "keep cap u caps = (if cap then u # caps else caps)"

text \<open>
  The search Go's \<^verbatim>\<open>regexp\<close> package promises: the match a backtracking search
  finds first.  \<open>bt\<close> matches the pieces against the whole of the remaining text (the
  pattern is anchored at both ends) and returns the captured groups in order;
  \<open>greedy\<close> runs a repetition, longest first, falling back to shorter runs when the
  rest of the pattern fails.  \<open>acc\<close> is what the repetition has consumed so far and
  \<open>m\<close> its least length.
\<close>

fun bt :: "piece list \<Rightarrow> string \<Rightarrow> string list option"
  and greedy :: "cclass \<Rightarrow> nat \<Rightarrow> bool \<Rightarrow> piece list \<Rightarrow> string \<Rightarrow> string \<Rightarrow> string list option"
where
  "bt [] s = (if s = [] then Some [] else None)"
| "bt (Piece c Once cap # ps) s =
     (case s of
        [] \<Rightarrow> None
      | x # xs \<Rightarrow> if cmatch c x then map_option (keep cap [x]) (bt ps xs) else None)"
| "bt (Piece c Star cap # ps) s = greedy c 0 cap ps [] s"
| "bt (Piece c Plus cap # ps) s = greedy c 1 cap ps [] s"
| "greedy c m cap ps acc [] =
     (if m \<le> length acc then map_option (keep cap acc) (bt ps []) else None)"
| "greedy c m cap ps acc (x # xs) =
     (case (if cmatch c x then greedy c m cap ps (acc @ [x]) xs else None) of
        Some r \<Rightarrow> Some r
      | None \<Rightarrow>
          if m \<le> length acc then map_option (keep cap acc) (bt ps (x # xs)) else None)"

definition lit :: "char \<Rightarrow> piece" where
  "lit c = Piece (Lit c) Once False"

definition logRegex :: "piece list" where
  "logRegex =
    [Piece NotSpace Plus True, lit CHR '' '',
     Piece NotSpace Plus False, lit CHR '' '',
     Piece NotSpace Plus False, lit CHR '' '',
     lit CHR ''['', Piece (NotChar CHR '']'') Plus True, lit CHR '']'', lit CHR '' '',
     lit CHR 0x22, Piece NotSpace Plus True, lit CHR '' '',
     Piece (NotChar CHR 0x22) Star True, lit CHR '' '',
     Piece (NotChar CHR 0x22) Star False, lit CHR 0x22, lit CHR '' '',
     Piece Digit Plus True, lit CHR '' '',
     Piece Digit Plus True, lit CHR '' '',
     lit CHR 0x22, Piece (NotChar CHR 0x22) Star True, lit CHR 0x22, lit CHR '' '',
     lit CHR 0x22, Piece (NotChar CHR 0x22) Star True, lit CHR 0x22,
     Piece AnyNotNL Star False]"

text \<open>
  \<^verbatim>\<open>FindStringSubmatch\<close>: the whole match followed by the groups, or the nil slice
  (length 0) when the text does not match.
\<close>

definition FindStringSubmatch :: "piece list \<Rightarrow> string \<Rightarrow> string list" where
  "FindStringSubmatch re s = (case bt re s of None \<Rightarrow> [] | Some caps \<Rightarrow> s # caps)"

text \<open>
  The language of a pattern, stated without any search order: the text splits into
  one run per piece, each run inside its piece's class and of an allowed length.
  The third argument lists the runs of the capturing pieces.
\<close>

fun qok :: "quant \<Rightarrow> nat \<Rightarrow> bool" where
  "qok Once n = (n = 1)"
| "qok Star n = True"
| "qok Plus n = (1 \<le> n)"

inductive lang :: "piece list \<Rightarrow> string \<Rightarrow> string list \<Rightarrow> bool" where
  lang_Nil: "lang [] [] []"
| lang_Cons: "list_all (cmatch c) u \<Longrightarrow> qok q (length u) \<Longrightarrow> lang ps v caps \<Longrightarrow>
     lang (Piece c q cap # ps) (u @ v) (keep cap u caps)"

definition combined_shape :: "string \<Rightarrow> bool" where
  "combined_shape line = (\<exists>caps. lang logRegex line caps)"

subsection \<open>Errors and numbers\<close>

datatype error = Errorf string | ErrSyntax | ErrRange | ErrTimeParse

definition isDigit :: "char \<Rightarrow> bool" where
  "isDigit c = (c \<in> set ''0123456789'')"

text \<open>The byte arithmetic \<^verbatim>\<open>c - '0'\<close>, applied to decimal digits only.\<close>

definition digit_val :: "char \<Rightarrow> int" where
  "digit_val c = int (of_char c - of_char CHR ''0'')"

definition dec :: "string \<Rightarrow> int" where
  "dec s = foldl (\<lambda>n c. 10 * n + digit_val c) 0 s"

text \<open>
  \<^verbatim>\<open>strconv.Atoi\<close> on a platform whose \<^verbatim>\<open>int\<close> has 64 bits: an optional sign,
  then one or more decimal digits; a value outside the 64-bit range is a range error.
\<close>

definition maxInt :: int where "maxInt = 2 ^ 63 - 1"
definition minInt :: int where "minInt = - (2 ^ 63)"

definition Atoi :: "string \<Rightarrow> error + int" where
  "Atoi s =
     (let signed = (s \<noteq> [] \<and> (hd s = CHR ''-'' \<or> hd s = CHR ''+''));
          body = (if signed then tl s else s)
      in if body = [] \<or> \<not> list_all isDigit body then Inl ErrSyntax
         else
           let n = dec body;
               v = (if hd s = CHR ''-'' then - n else n)
           in if v < minInt \<or> maxInt < v then Inl ErrRange else Inr v)"

subsection \<open>\<^verbatim>\<open>time.Parse\<close> with the layout \<^verbatim>\<open>02/Jan/2006:15:04:05 -0700\<close>\<close>

text \<open>
  A \<^verbatim>\<open>time.Time\<close> is modelled by its civil fields in its own zone and the zone's
  offset in seconds east of UTC.  Which \<^verbatim>\<open>*Location\<close> carries the offset (the local
  zone when its offset agrees, a fixed zone otherwise) is not modelled.
\<close>

record Time =
  Year :: int
  Month :: int
  Day :: int
  Hour :: int
  Minute :: int
  Second :: int
  Nanosecond :: int
  ZoneOffset :: int

definition guard :: "bool \<Rightarrow> unit option" where
  "guard b = (if b then Some () else None)"

text \<open>\<^verbatim>\<open>getnum\<close>: one or two digits, exactly two when \<open>fixed\<close>.\<close>

definition getnum :: "string \<Rightarrow> bool \<Rightarrow> (int \<times> string) option" where
  "getnum s fixed =
     (case s of
        [] \<Rightarrow> None
      | d1 # r1 \<Rightarrow>
          if \<not> isDigit d1 then None
          else (case r1 of
                  [] \<Rightarrow> if fixed then None else Some (digit_val d1, r1)
                | d2 # r2 \<Rightarrow>
                    if \<not> isDigit d2 then (if fixed then None else Some (digit_val d1, r1))
                    else Some (digit_val d1 * 10 + digit_val d2, r2)))"

definition cutspace :: "string \<Rightarrow> string" where
  "cutspace s = dropWhile (\<lambda>c. c = CHR '' '') s"

text \<open>
  \<^verbatim>\<open>skip\<close>: the literal text between two layout elements.  A space of the layout
  stands for any run of spaces of the value (also an empty run at the value's end).
\<close>

function skip :: "string \<Rightarrow> string \<Rightarrow> string option" where
  "skip v [] = Some v"
| "skip v (p # ps) =
     (if p = CHR '' '' then
        (if v \<noteq> [] \<and> hd v \<noteq> CHR '' '' then None
         else skip (cutspace v) (cutspace ps))
      else (case v of
              [] \<Rightarrow> None
            | x # xs \<Rightarrow> if x = p then skip xs ps else None))"
  by pat_completeness auto
termination
  by (relation "measure (\<lambda>(v, p). length p)")
    (auto simp: cutspace_def le_imp_less_Suc length_dropWhile_le)

text \<open>
  \<^verbatim>\<open>lookup\<close> in \<^verbatim>\<open>shortMonthNames\<close>: the first name that the value starts with,
  ignoring ASCII case (\<^verbatim>\<open>match\<close> sets bit 5 of both bytes and asks for a letter).
\<close>

fun setbit5 :: "char \<Rightarrow> char" where
  "setbit5 (Char b0 b1 b2 b3 b4 b5 b6 b7) = Char b0 b1 b2 b3 b4 True b6 b7"

definition match1 :: "char \<Rightarrow> char \<Rightarrow> bool" where
  "match1 c1 c2 =
     (c1 = c2 \<or>
      (setbit5 c1 = setbit5 c2 \<and> setbit5 c1 \<in> set ''abcdefghijklmnopqrstuvwxyz''))"

definition match_fold :: "string \<Rightarrow> string \<Rightarrow> bool" where
  "match_fold s1 s2 = list_all2 match1 s1 s2"

definition shortMonthNames :: "string list" where
  "shortMonthNames =
     [''Jan'', ''Feb'', ''Mar'', ''Apr'', ''May'', ''Jun'',
      ''Jul'', ''Aug'', ''Sep'', ''Oct'', ''Nov'', ''Dec'']"

fun lookup :: "string list \<Rightarrow> nat \<Rightarrow> string \<Rightarrow> (int \<times> string) option" where
  "lookup [] i val = None"
| "lookup (v # tab) i val =
     (if length v \<le> length val \<and> match_fold (take (length v) val) v
      then Some (int i, drop (length v) val)
      else lookup tab (Suc i) val)"

text \<open>\<^verbatim>\<open>stdLongYear\<close>: exactly four digits.\<close>

definition longYear :: "string \<Rightarrow> (int \<times> string) option" where
  "longYear v =
     (if length v < 4 \<or> \<not> list_all isDigit (take 4 v) then None
      else Some (dec (take 4 v), drop 4 v))"

text \<open>
  A fraction after the seconds is accepted although the layout has none: a comma or
  period and digits, of which the first nine count.
\<close>

definition fracSecond :: "string \<Rightarrow> int \<times> string" where
  "fracSecond v =
     (if 2 \<le> length v \<and> (hd v = CHR ''.'' \<or> hd v = CHR '','') \<and> isDigit (v ! 1) then
        (let ds = takeWhile isDigit (tl v);
             ds9 = take 9 ds
         in (dec ds9 * 10 ^ (9 - length ds9), drop (Suc (length ds)) v))
      else (0, v))"

text \<open>
  \<^verbatim>\<open>stdNumTZ\<close>: a sign, two digits of hours and two of minutes.  The range test
  lets 24 hours and 60 minutes pass.
\<close>

definition numTZ :: "string \<Rightarrow> (int \<times> string) option" where
  "numTZ v =
     (if length v < 5 then None
      else do {
        (hr, _) \<leftarrow> getnum (take 2 (drop 1 v)) True;
        (mm, _) \<leftarrow> getnum (take 2 (drop 3 v)) True;
        _ \<leftarrow> guard (hr \<le> 24 \<and> mm \<le> 60);
        _ \<leftarrow> guard (hd v = CHR ''+'' \<or> hd v = CHR ''-'');
        Some (if hd v = CHR ''-'' then - ((hr * 60 + mm) * 60) else (hr * 60 + mm) * 60,
              drop 5 v)
      })"

definition isLeap :: "int \<Rightarrow> bool" where
  "isLeap year = (year mod 4 = 0 \<and> (year mod 100 \<noteq> 0 \<or> year mod 400 = 0))"

definition daysIn :: "int \<Rightarrow> int \<Rightarrow> int" where
  "daysIn m year =
     (if m = 2 then (if isLeap year then 29 else 28)
      else if m \<in> {4, 6, 9, 11} then 30 else 31)"

definition time_Parse :: "string \<Rightarrow> error + Time" where
  "time_Parse v0 =
     (case do {
        (day, v1) \<leftarrow> getnum v0 True;
        v2 \<leftarrow> skip v1 ''/'';
        (mi, v3) \<leftarrow> lookup shortMonthNames 0 v2;
        v4 \<leftarrow> skip v3 ''/'';
        (year, v5) \<leftarrow> longYear v4;
        v6 \<leftarrow> skip v5 '':'';
        (hour, v7) \<leftarrow> getnum v6 False;
        _ \<leftarrow> guard (hour < 24);
        v8 \<leftarrow> skip v7 '':'';
        (minute, v9) \<leftarrow> getnum v8 True;
        _ \<leftarrow> guard (minute < 60);
        v10 \<leftarrow> skip v9 '':'';
        (sec, v11) \<leftarrow> getnum v10 True;
        _ \<leftarrow> guard (sec < 60);
        (nsec, v12) \<leftarrow> Some (fracSecond v11);
        v13 \<leftarrow> skip v12 '' '';
        (zoneOffset, v14) \<leftarrow> numTZ v13;
        _ \<leftarrow> guard (v14 = []);
        _ \<leftarrow> guard (1 \<le> day \<and> day \<le> daysIn (mi + 1) year);
        Some \<lparr>Year = year, Month = mi + 1, Day = day, Hour = hour, Minute = minute,
              Second = sec, Nanosecond = nsec, ZoneOffset = zoneOffset\<rparr>
      } of
        None \<Rightarrow> Inl ErrTimeParse
      | Some t \<Rightarrow> Inr t)"

subsection \<open>\<^verbatim>\<open>LogEntry\<close> and \<^verbatim>\<open>parseNginxLog\<close>\<close>

record LogEntry =
  Timestamp :: Time
  IP :: string
  Method :: string
  URL :: string
  StatusCode :: int
  Size :: int
  UserAgent :: string
  Referer :: string
  Country :: string
  CountryFull :: string

text \<open>
  \<open>now\<close> is what \<^verbatim>\<open>time.Now()\<close> returns at the call: the clock is an input of the
  model, read only when the timestamp does not parse.
\<close>

definition parseNginxLog :: "Time \<Rightarrow> string \<Rightarrow> error + LogEntry" where
  "parseNginxLog now line =
     (let matches = FindStringSubmatch logRegex line in
      if length matches \<noteq> 9 then Inl (Errorf (''failed to parse log line: '' @ line))
      else
        let timestampStr = matches ! 2;
            timestamp = (case time_Parse timestampStr of Inl err \<Rightarrow> now | Inr t \<Rightarrow> t);
            statusCode = (case Atoi (matches ! 5) of Inl err \<Rightarrow> 0 | Inr n \<Rightarrow> n);
            size = (case Atoi (matches ! 6) of Inl err \<Rightarrow> 0 | Inr n \<Rightarrow> n)
        in Inr \<lparr>Timestamp = timestamp, IP = matches ! 1, Method = matches ! 3,
                URL = matches ! 4, StatusCode = statusCode, Size = size,
                UserAgent = matches ! 8, Referer = matches ! 7,
                Country = [], CountryFull = []\<rparr>)"

subsection \<open>The grammar, piece by piece\<close>

text \<open>
  A line of the combined format written out in its parts.  In \<open>wellformed\<close> the protocol
  holds no space: the path group is greedy, so it runs up to the last space of the
  request.
\<close>

record parts =
  p_ip :: string
  p_ident :: string
  p_user :: string
  p_ts :: string
  p_method :: string
  p_url :: string
  p_proto :: string
  p_status :: string
  p_size :: string
  p_referer :: string
  p_agent :: string
  p_rest :: string

definition assemble :: "parts \<Rightarrow> string" where
  "assemble p =
     p_ip p @ CHR '' '' # p_ident p @ CHR '' '' # p_user p @ CHR '' '' #
     CHR ''['' # p_ts p @ CHR '']'' # CHR '' '' #
     CHR 0x22 # p_method p @ CHR '' '' # p_url p @ CHR '' '' # p_proto p @ CHR 0x22 # CHR '' '' #
     p_status p @ CHR '' '' # p_size p @ CHR '' '' #
     CHR 0x22 # p_referer p @ CHR 0x22 # CHR '' '' #
     CHR 0x22 # p_agent p @ CHR 0x22 # p_rest p"

definition word :: "cclass \<Rightarrow> string \<Rightarrow> bool" where
  "word c s = (s \<noteq> [] \<and> list_all (cmatch c) s)"

definition wellformed :: "parts \<Rightarrow> bool" where
  "wellformed p =
     (word NotSpace (p_ip p) \<and> word NotSpace (p_ident p) \<and> word NotSpace (p_user p) \<and>
      word (NotChar CHR '']'') (p_ts p) \<and>
      word NotSpace (p_method p) \<and>
      list_all (cmatch (NotChar CHR 0x22)) (p_url p) \<and>
      list_all (\<lambda>x. x \<noteq> CHR 0x22 \<and> x \<noteq> CHR '' '') (p_proto p) \<and>
      word Digit (p_status p) \<and> word Digit (p_size p) \<and>
      list_all (cmatch (NotChar CHR 0x22)) (p_referer p) \<and>
      list_all (cmatch (NotChar CHR 0x22)) (p_agent p) \<and>
      list_all (cmatch AnyNotNL) (p_rest p))"

fun captures :: "piece \<Rightarrow> bool" where
  "captures (Piece c q cap) = cap"

fun fits :: "piece \<Rightarrow> string \<Rightarrow> bool" where
  "fits (Piece c q cap) u = (list_all (cmatch c) u \<and> qok q (length u))"

text \<open>\<open>spaceless\<close>: a field of a line, which holds no space.  \<open>is_lit d\<close> picks the pieces that are the literal \<open>d\<close>.\<close>

definition spaceless :: "string \<Rightarrow> bool" where
  "spaceless s = (CHR '' '' \<notin> set s)"

fun is_lit :: "char \<Rightarrow> piece \<Rightarrow> bool" where
  "is_lit d (Piece c q cap) = (c = Lit d \<and> q = Once)"

subsection \<open>Sample lines and clock readings\<close>

definition dq :: string where "dq = [CHR 0x22]"

definition example_line :: string where
  "example_line = ''203.0.113.5 - - [17/Nov/2025:10:30:45 +0000] '' @ dq @
     ''GET /api/test HTTP/1.1'' @ dq @ '' 200 1234 '' @ dq @ ''http://example.com'' @ dq @
     '' '' @ dq @ ''Mozilla/5.0'' @ dq"

definition example_parts :: parts where
  "example_parts = \<lparr>p_ip = ''203.0.113.5'', p_ident = ''-'', p_user = ''-'',
     p_ts = ''17/Nov/2025:10:30:45 +0000'', p_method = ''GET'', p_url = ''/api/test'',
     p_proto = ''HTTP/1.1'', p_status = ''200'', p_size = ''1234'',
     p_referer = ''http://example.com'', p_agent = ''Mozilla/5.0'', p_rest = []\<rparr>"

definition example_time :: Time where
  "example_time = \<lparr>Year = 2025, Month = 11, Day = 17, Hour = 10, Minute = 30, Second = 45,
     Nanosecond = 0, ZoneOffset = 0\<rparr>"

definition clock1 :: Time where
  "clock1 = \<lparr>Year = 2026, Month = 1, Day = 2, Hour = 3, Minute = 4, Second = 5,
     Nanosecond = 6, ZoneOffset = 0\<rparr>"

definition clock2 :: Time where
  "clock2 = \<lparr>Year = 2026, Month = 1, Day = 2, Hour = 3, Minute = 4, Second = 6,
     Nanosecond = 0, ZoneOffset = 0\<rparr>"

definition overflow_line :: string where
  "overflow_line = ''198.51.100.7 - - [17/Nov/2025:10:30:45 +0000] '' @ dq @
     ''GET / HTTP/1.1'' @ dq @ '' 99999999999999999999 5 '' @ dq @ ''-'' @ dq @
     '' '' @ dq @ ''curl'' @ dq"

definition lenient_line :: string where
  "lenient_line = ''198.51.100.7 - - [yesterday] '' @ dq @
     ''GET / HTTP/1.1'' @ dq @ '' 18446744073709551616 9223372036854775808 '' @ dq @ ''-'' @ dq @
     '' '' @ dq @ ''curl'' @ dq"

definition untimed_line :: string where
  "untimed_line = ''198.51.100.7 - - [17/Nov/2025 10:30:45] '' @ dq @
     ''GET / HTTP/1.1'' @ dq @ '' 200 5 '' @ dq @ ''-'' @ dq @ '' '' @ dq @ ''curl'' @ dq"

definition missing_quote_line :: string where
  "missing_quote_line = ''203.0.113.5 - - [17/Nov/2025:10:30:45 +0000] '' @ dq @
     ''GET /api/test HTTP/1.1 200 1234 '' @ dq @ ''http://example.com'' @ dq @
     '' '' @ dq @ ''Mozilla/5.0'' @ dq"

definition missing_agent_line :: string where
  "missing_agent_line = ''203.0.113.5 - - [17/Nov/2025:10:30:45 +0000] '' @ dq @
     ''GET /api/test HTTP/1.1'' @ dq @ '' 200 1234 '' @ dq @ ''http://example.com'' @ dq"

definition bad_status_line :: string where
  "bad_status_line = ''203.0.113.5 - - [17/Nov/2025:10:30:45 +0000] '' @ dq @
     ''GET /api/test HTTP/1.1'' @ dq @ '' abc 1234 '' @ dq @ ''http://example.com'' @ dq @
     '' '' @ dq @ ''Mozilla/5.0'' @ dq"

definition bad_size_line :: string where
  "bad_size_line = ''203.0.113.5 - - [17/Nov/2025:10:30:45 +0000] '' @ dq @
     ''GET /api/test HTTP/1.1'' @ dq @ '' 200 - '' @ dq @ ''http://example.com'' @ dq @
     '' '' @ dq @ ''Mozilla/5.0'' @ dq"

section \<open>The viewer registry and the broadcast (\<^verbatim>\<open>manageClients\<close>, \<^verbatim>\<open>broadcastLogEntry\<close>)\<close>

text \<open>
  A \<^verbatim>\<open>*websocket.Conn\<close> is modelled by its identity, the package-level map
  \<^verbatim>\<open>clients\<close> by a partial map.
\<close>

type_synonym conn = nat

record clientAction =
  conn :: conn
  action :: string

definition register :: "conn \<Rightarrow> clientAction" where
  "register c = \<lparr>conn = c, action = ''register''\<rparr>"

definition unregister :: "conn \<Rightarrow> clientAction" where
  "unregister c = \<lparr>conn = c, action = ''unregister''\<rparr>"

text \<open>The body of the loop of \<^verbatim>\<open>manageClients\<close> for one received action.\<close>

definition manageClients_step :: "clientAction \<Rightarrow> (conn \<rightharpoonup> bool) \<Rightarrow> (conn \<rightharpoonup> bool)" where
  "manageClients_step a clients =
     (if action a = ''register'' then clients(conn a \<mapsto> True)
      else if action a = ''unregister'' then clients(conn a := None)
      else clients)"

record LogUpdate =
  Type :: string
  Data :: LogEntry

text \<open>
  What a goroutine does to the world, in order: serialising an update, writing a text
  message or a ping to a connection, closing a connection, sending on
  \<^verbatim>\<open>clientActions\<close>, stopping its ticker.
\<close>

datatype effect =
    Marshal LogUpdate
  | WriteMessage conn string
  | PingMessage conn
  | CloseConn conn
  | Submit clientAction
  | StopTicker

text \<open>
  The second loop of \<^verbatim>\<open>broadcastLogEntry\<close>.  \<open>wr client message\<close> tells whether
  \<^verbatim>\<open>client.WriteMessage\<close> returns without error.
\<close>

fun write_all :: "(conn \<Rightarrow> string \<Rightarrow> bool) \<Rightarrow> string \<Rightarrow> conn list \<Rightarrow> effect list" where
  "write_all wr message [] = []"
| "write_all wr message (client # rest) =
     (if wr client message then [WriteMessage client message]
      else [WriteMessage client message, CloseConn client, Submit (unregister client)])
     @ write_all wr message rest"

text \<open>
  Go ranges over a map in an order of its choosing: the snapshot is any list of the
  keys without repetition.
\<close>

definition is_snapshot :: "(conn \<rightharpoonup> bool) \<Rightarrow> conn list \<Rightarrow> bool" where
  "is_snapshot clients clientSnapshot =
     (distinct clientSnapshot \<and> set clientSnapshot = dom clients)"

text \<open>
  \<open>marshal\<close> stands for \<^verbatim>\<open>json.Marshal\<close>, which returns the bytes or an error.
  On an error the function logs it and returns before it looks at the registry.
\<close>

definition broadcastLogEntry ::
  "(LogUpdate \<Rightarrow> error + string) \<Rightarrow> (conn \<Rightarrow> string \<Rightarrow> bool) \<Rightarrow> conn list \<Rightarrow> LogEntry \<Rightarrow> effect list"
where
  "broadcastLogEntry marshal wr clientSnapshot logEntry =
     (let update = \<lparr>Type = ''log_entry'', Data = logEntry\<rparr> in
      case marshal update of
        Inl err \<Rightarrow> [Marshal update]
      | Inr message \<Rightarrow> Marshal update # write_all wr message clientSnapshot)"

text \<open>
  What is known of \<^verbatim>\<open>json.Marshal\<close> on a \<^verbatim>\<open>LogUpdate\<close>: strings and integers
  always serialise; for the timestamp \<^verbatim>\<open>Time.MarshalJSON\<close> is called, which reports
  an error for a year outside 0 to 9999 and for a zone offset of 24 hours or more.
  \<open>enc\<close> is the text produced otherwise.
\<close>

definition time_MarshalJSON_ok :: "Time \<Rightarrow> bool" where
  "time_MarshalJSON_ok t = (0 \<le> Year t \<and> Year t \<le> 9999 \<and> \<bar>ZoneOffset t\<bar> div 3600 < 24)"

definition json_Marshal :: "(LogUpdate \<Rightarrow> string) \<Rightarrow> LogUpdate \<Rightarrow> error + string" where
  "json_Marshal enc u =
     (if time_MarshalJSON_ok (Timestamp (Data u)) then Inr (enc u)
      else Inl (Errorf ''json: error calling MarshalJSON for type time.Time''))"

text \<open>Projections of a list of effects.\<close>

fun attempt :: "effect \<Rightarrow> (conn \<times> string) list" where
  "attempt (WriteMessage c m) = [(c, m)]"
| "attempt e = []"

fun closing :: "effect \<Rightarrow> conn list" where
  "closing (CloseConn c) = [c]"
| "closing e = []"

fun submitted :: "effect \<Rightarrow> clientAction list" where
  "submitted (Submit a) = [a]"
| "submitted e = []"

fun marshalling :: "effect \<Rightarrow> LogUpdate list" where
  "marshalling (Marshal u) = [u]"
| "marshalling e = []"

definition attempts :: "effect list \<Rightarrow> (conn \<times> string) list" where
  "attempts tr = concat (map attempt tr)"

definition closes :: "effect list \<Rightarrow> conn list" where
  "closes tr = concat (map closing tr)"

definition submits :: "effect list \<Rightarrow> clientAction list" where
  "submits tr = concat (map submitted tr)"

definition marshals :: "effect list \<Rightarrow> LogUpdate list" where
  "marshals tr = concat (map marshalling tr)"

subsection \<open>The registry and a broadcast running side by side\<close>

text \<open>
  \<^verbatim>\<open>manageClients\<close> and \<^verbatim>\<open>broadcastLogEntries\<close> are two goroutines.  Their
  interleavings are the lists of moves: \<^verbatim>\<open>manageClients\<close> processes one action; the
  broadcaster, with no broadcast under way, builds the snapshot of a new one; the
  broadcaster makes the next write of its snapshot, which succeeds or fails.
  \<open>pending\<close> is the part of the snapshot not yet written to.
\<close>

record hub =
  clients :: "conn \<rightharpoonup> bool"
  pending :: "conn list"

datatype hub_move = Process clientAction | Snapshot "conn list" | WriteNext bool

datatype hub_event = Processed clientAction | Snapshotted "conn list" | Wrote conn bool

fun hub_step :: "hub_move \<Rightarrow> hub \<Rightarrow> (hub \<times> hub_event) option" where
  "hub_step (Process a) h =
     Some (h\<lparr>clients := manageClients_step a (clients h)\<rparr>, Processed a)"
| "hub_step (Snapshot snap) h =
     (if pending h = [] \<and> is_snapshot (clients h) snap
      then Some (h\<lparr>pending := snap\<rparr>, Snapshotted snap) else None)"
| "hub_step (WriteNext ok) h =
     (case pending h of
        [] \<Rightarrow> None
      | client # rest \<Rightarrow> Some (h\<lparr>pending := rest\<rparr>, Wrote client ok))"

fun hub_run :: "hub \<Rightarrow> hub_move list \<Rightarrow> (hub \<times> hub_event list) option" where
  "hub_run h [] = Some (h, [])"
| "hub_run h (mv # mvs) =
     (case hub_step mv h of
        None \<Rightarrow> None
      | Some (h', ev) \<Rightarrow>
          (case hub_run h' mvs of
             None \<Rightarrow> None
           | Some (h'', evs) \<Rightarrow> Some (h'', ev # evs)))"

definition hub_init :: hub where
  "hub_init = \<lparr>clients = Map.empty, pending = []\<rparr>"

text \<open>
  The handles whose last processed action is an unregistration, after \<open>a\<close> is
  processed.
\<close>

definition gone_after :: "clientAction \<Rightarrow> conn set \<Rightarrow> conn set" where
  "gone_after a gone =
     (if action a = ''register'' then gone - {conn a}
      else if action a = ''unregister'' then insert (conn a) gone
      else gone)"

text \<open>
  Two readings of ``no write after the unregistration has been processed''.
  \<open>no_write_once_gone\<close>: no write to a handle that is gone at the time of the write.
  \<open>no_write_if_gone_at_snapshot\<close>: no write to a handle that was gone when the
  broadcast making the write took its snapshot (\<open>barred\<close>).
\<close>

fun no_write_once_gone :: "conn set \<Rightarrow> hub_event list \<Rightarrow> bool" where
  "no_write_once_gone gone [] = True"
| "no_write_once_gone gone (Processed a # evs) = no_write_once_gone (gone_after a gone) evs"
| "no_write_once_gone gone (Snapshotted snap # evs) = no_write_once_gone gone evs"
| "no_write_once_gone gone (Wrote c ok # evs) = (c \<notin> gone \<and> no_write_once_gone gone evs)"

fun no_write_if_gone_at_snapshot :: "conn set \<Rightarrow> conn set \<Rightarrow> hub_event list \<Rightarrow> bool" where
  "no_write_if_gone_at_snapshot gone barred [] = True"
| "no_write_if_gone_at_snapshot gone barred (Processed a # evs) =
     no_write_if_gone_at_snapshot (gone_after a gone) barred evs"
| "no_write_if_gone_at_snapshot gone barred (Snapshotted snap # evs) =
     no_write_if_gone_at_snapshot gone gone evs"
| "no_write_if_gone_at_snapshot gone barred (Wrote c ok # evs) =
     (c \<notin> barred \<and> no_write_if_gone_at_snapshot gone barred evs)"

section \<open>The tailer (\<^verbatim>\<open>watchLogFile\<close>, \<^verbatim>\<open>inodeChecker\<close>)\<close>

subsection \<open>One line, from the reader to the channel\<close>

text \<open>
  \<^verbatim>\<open>strings.TrimSpace\<close> removes the leading and then the trailing white space, as
  Unicode defines it: six ASCII characters, U+0085, U+00A0, U+1680, U+2000 to U+200A,
  U+2028, U+2029, U+202F, U+205F and U+3000, here in UTF-8.
\<close>

definition spaceRunes :: "string list" where
  "spaceRunes =
     [[CHR 0x09], [CHR 0x0A], [CHR 0x0B], [CHR 0x0C], [CHR 0x0D], [CHR 0x20],
      [CHR 0xC2, CHR 0x85], [CHR 0xC2, CHR 0xA0], [CHR 0xE1, CHR 0x9A, CHR 0x80],
      [CHR 0xE2, CHR 0x80, CHR 0x80], [CHR 0xE2, CHR 0x80, CHR 0x81],
      [CHR 0xE2, CHR 0x80, CHR 0x82], [CHR 0xE2, CHR 0x80, CHR 0x83],
      [CHR 0xE2, CHR 0x80, CHR 0x84], [CHR 0xE2, CHR 0x80, CHR 0x85],
      [CHR 0xE2, CHR 0x80, CHR 0x86], [CHR 0xE2, CHR 0x80, CHR 0x87],
      [CHR 0xE2, CHR 0x80, CHR 0x88], [CHR 0xE2, CHR 0x80, CHR 0x89],
      [CHR 0xE2, CHR 0x80, CHR 0x8A], [CHR 0xE2, CHR 0x80, CHR 0xA8],
      [CHR 0xE2, CHR 0x80, CHR 0xA9], [CHR 0xE2, CHR 0x80, CHR 0xAF],
      [CHR 0xE2, CHR 0x81, CHR 0x9F], [CHR 0xE3, CHR 0x80, CHR 0x80]]"

definition starts_with :: "string \<Rightarrow> string \<Rightarrow> bool" where
  "starts_with s r = (r \<noteq> [] \<and> take (length r) s = r)"

function strip :: "string list \<Rightarrow> string \<Rightarrow> string" where
  "strip tab s =
     (case find (starts_with s) tab of
        None \<Rightarrow> s
      | Some r \<Rightarrow> strip tab (drop (length r) s))"
  by pat_completeness auto
termination
proof (relation "measure (\<lambda>(tab, s). length s)")
  show "wf (measure (\<lambda>(tab, s). length s))" by simp
next
  fix tab :: "string list" and s r :: string
  assume "find (starts_with s) tab = Some r"
  then have "starts_with s r" by (auto simp: find_Some_iff)
  then have "r \<noteq> []" "s \<noteq> []" by (auto simp: starts_with_def)
  then show "((tab, drop (length r) s), (tab, s)) \<in> measure (\<lambda>(tab, s). length s)"
    by (cases r; cases s) auto
qed

definition TrimSpace :: "string \<Rightarrow> string" where
  "TrimSpace s = rev (strip (map rev spaceRunes) (rev (strip spaceRunes s)))"

text \<open>\<^verbatim>\<open>strings.Contains\<close>.\<close>

fun Contains :: "string \<Rightarrow> string \<Rightarrow> bool" where
  "Contains [] substr = (substr = [])"
| "Contains (x # xs) substr = (take (length substr) (x # xs) = substr \<or> Contains xs substr)"

text \<open>
  The geolocation database.  \<^verbatim>\<open>db.Lookup(ip)\<close> ends in an error, in no record for
  the address, or in a record; \<^verbatim>\<open>Decode\<close> returns the error in the first case, and in
  the second returns no error and leaves its argument as it was.  The fields of
  \<^verbatim>\<open>ipRecord\<close> are those of its \<^verbatim>\<open>Country\<close>; a missing key of \<^verbatim>\<open>Names\<close> reads as
  the empty string.
\<close>

record ipRecord =
  ISOCode :: string
  Names :: "string \<rightharpoonup> string"

datatype lookup_result = LookupError error | NotFound | Found ipRecord

definition Decode :: "lookup_result \<Rightarrow> ipRecord \<Rightarrow> error + ipRecord" where
  "Decode res v =
     (case res of
        LookupError err \<Rightarrow> Inl err
      | NotFound \<Rightarrow> Inr v
      | Found r \<Rightarrow> Inr r)"

definition index_or_empty :: "(string \<rightharpoonup> string) \<Rightarrow> string \<Rightarrow> string" where
  "index_or_empty m k = (case m k of None \<Rightarrow> [] | Some v \<Rightarrow> v)"

text \<open>
  The body of the \<^verbatim>\<open>default\<close> case of the loop of \<^verbatim>\<open>watchLogFile\<close>, from the
  trimming on: the line is passed over in silence, dropped with a log message, or
  its entry is sent on the channel.  \<open>ParseAddr\<close> stands for \<^verbatim>\<open>netip.ParseAddr\<close> and
  \<open>db\<close> for the lookup in the opened database.
\<close>

datatype outcome = Skipped | Dropped | Sent LogEntry

definition processLine ::
  "(string \<Rightarrow> error + 'addr) \<Rightarrow> ('addr \<Rightarrow> lookup_result) \<Rightarrow> Time \<Rightarrow> string \<Rightarrow> outcome" where
  "processLine ParseAddr db now line0 =
     (let line = TrimSpace line0 in
      if line = [] then Skipped
      else
        case parseNginxLog now line of
          Inl err \<Rightarrow> Dropped
        | Inr logEntry \<Rightarrow>
            if Contains (URL logEntry) ''nginxviz'' then Skipped
            else
              case ParseAddr (IP logEntry) of
                Inl err \<Rightarrow> Dropped
              | Inr ip \<Rightarrow>
                  (case Decode (db ip) \<lparr>ISOCode = [], Names = Map.empty\<rparr> of
                     Inl err \<Rightarrow> Dropped
                   | Inr country \<Rightarrow>
                       Sent (logEntry\<lparr>Country := ISOCode country,
                                      CountryFull := index_or_empty (Names country) ''en''\<rparr>)))"

subsection \<open>The session and its file\<close>

text \<open>
  \<^verbatim>\<open>reader.ReadString('\n')\<close> on the bytes not yet consumed: the bytes up to and with
  the first newline, or, when there is none, all of them together with an error.
\<close>

definition ReadString :: "string \<Rightarrow> string \<times> bool" where
  "ReadString rest =
     (let line = takeWhile (\<lambda>c. c \<noteq> CHR 0x0A) rest in
      if length line < length rest then (line @ [CHR 0x0A], False) else (line, True))"

text \<open>
  The state of the tailer and of what it watches.  Files are known by their inode;
  \<open>at_path\<close> is the inode the path names now, \<open>bytes\<close> the contents of every file.
  \<open>pc\<close> is the point the \<^verbatim>\<open>watchLogFile\<close> goroutine has reached: before the
  \<^verbatim>\<open>os.Stat\<close> of its first loop, before \<^verbatim>\<open>os.Open\<close>, before \<^verbatim>\<open>getInode\<close>, at the
  \<^verbatim>\<open>select\<close> of its second loop, or returned without a successor.  \<open>live\<close> counts the
  \<^verbatim>\<open>watchLogFile\<close> goroutines that have not returned, \<open>started\<close> those ever started.
\<close>

datatype pc = AtStat | AtOpen | AtGetInode | AtSelect | Returned

record tailer =
  at_path :: "nat option"
  bytes :: "nat \<Rightarrow> string"
  pc :: pc
  open_file :: nat
  pos :: nat
  currentInode :: nat
  checker_runs :: bool
  rotated :: bool
  live :: nat
  started :: nat
  lines_read :: "string list"
  sent :: "LogEntry list"

text \<open>\<^verbatim>\<open>getInode\<close>: the inode of the file at the path, or the error of \<^verbatim>\<open>os.Stat\<close>.\<close>

definition getInode :: "tailer \<Rightarrow> error + nat" where
  "getInode t =
     (case at_path t of
        None \<Rightarrow> Inl (Errorf ''stat: no such file or directory'')
      | Some i \<Rightarrow> Inr i)"

definition give_up :: "tailer \<Rightarrow> tailer" where
  "give_up t = t\<lparr>pc := Returned, live := live t - 1\<rparr>"

text \<open>
  One step of the \<^verbatim>\<open>watchLogFile\<close> goroutine, from one point to the next.
  \<open>may_open\<close> tells whether \<^verbatim>\<open>os.Open\<close> succeeds on a file that exists, \<open>now\<close> is
  the clock reading.  At the \<^verbatim>\<open>select\<close>, a value on \<^verbatim>\<open>rotated\<close> starts the
  successor and ends this goroutine: the successor is then the goroutine the state
  describes.
\<close>

definition watchLogFile_step ::
  "(string \<Rightarrow> error + 'addr) \<Rightarrow> ('addr \<Rightarrow> lookup_result) \<Rightarrow> bool \<Rightarrow> Time \<Rightarrow> tailer \<Rightarrow> tailer" where
  "watchLogFile_step ParseAddr db may_open now t =
     (case pc t of
        AtStat \<Rightarrow> (case at_path t of None \<Rightarrow> t | Some i \<Rightarrow> t\<lparr>pc := AtOpen\<rparr>)
      | AtOpen \<Rightarrow>
          (case at_path t of
             None \<Rightarrow> give_up t
           | Some i \<Rightarrow> if may_open then t\<lparr>pc := AtGetInode, open_file := i\<rparr> else give_up t)
      | AtGetInode \<Rightarrow>
          (case getInode t of
             Inl err \<Rightarrow> give_up t
           | Inr i \<Rightarrow>
               t\<lparr>pc := AtSelect, currentInode := i, checker_runs := True, rotated := False,
                  pos := 0\<rparr>)
      | AtSelect \<Rightarrow>
          if rotated t then t\<lparr>pc := AtStat, rotated := False, started := started t + 1\<rparr>
          else
            (case ReadString (drop (pos t) (bytes t (open_file t))) of
               (line, err) \<Rightarrow>
                 if err then t\<lparr>pos := pos t + length line\<rparr>
                 else
                   (case processLine ParseAddr db now line of
                      Sent logEntry \<Rightarrow>
                        t\<lparr>pos := pos t + length line, lines_read := lines_read t @ [line],
                           sent := sent t @ [logEntry]\<rparr>
                    | _ \<Rightarrow> t\<lparr>pos := pos t + length line, lines_read := lines_read t @ [line]\<rparr>))
      | Returned \<Rightarrow> t)"

text \<open>
  One tick of \<^verbatim>\<open>inodeChecker\<close>: an error of \<^verbatim>\<open>getInode\<close> is passed over, another
  inode at the path is signalled on \<^verbatim>\<open>rotated\<close> and ends the checker.
\<close>

definition inodeChecker_tick :: "tailer \<Rightarrow> tailer" where
  "inodeChecker_tick t =
     (if \<not> checker_runs t then t
      else case getInode t of
             Inl err \<Rightarrow> t
           | Inr newInode \<Rightarrow>
               if newInode \<noteq> currentInode t then t\<lparr>rotated := True, checker_runs := False\<rparr>
               else t)"

text \<open>
  The moves of the tailer and of its surroundings: a step of \<^verbatim>\<open>watchLogFile\<close>, a tick
  of the checker, a writer appending bytes to a file it holds open, the path being
  given to another file or to none.
\<close>

datatype move = Session bool Time | Ticker | Append nat string | Replace "nat option"

fun tail_move ::
  "(string \<Rightarrow> error + 'addr) \<Rightarrow> ('addr \<Rightarrow> lookup_result) \<Rightarrow> move \<Rightarrow> tailer \<Rightarrow> tailer" where
  "tail_move ParseAddr db (Session may_open now) t = watchLogFile_step ParseAddr db may_open now t"
| "tail_move ParseAddr db Ticker t = inodeChecker_tick t"
| "tail_move ParseAddr db (Append i bs) t = t\<lparr>bytes := (bytes t)(i := bytes t i @ bs)\<rparr>"
| "tail_move ParseAddr db (Replace p) t = t\<lparr>at_path := p\<rparr>"

definition tail_run ::
  "(string \<Rightarrow> error + 'addr) \<Rightarrow> ('addr \<Rightarrow> lookup_result) \<Rightarrow> tailer \<Rightarrow> move list \<Rightarrow> tailer" where
  "tail_run ParseAddr db t mvs = foldl (\<lambda>t mv. tail_move ParseAddr db mv t) t mvs"

text \<open>\<^verbatim>\<open>go watchLogFile(logFile, c, db)\<close> in \<^verbatim>\<open>main\<close>, with no file at the path yet.\<close>

definition tail_init :: tailer where
  "tail_init =
     \<lparr>at_path = None, bytes = (\<lambda>i. []), pc = AtStat, open_file = 0, pos = 0, currentInode = 0,
      checker_runs = False, rotated = False, live = 1, started = 1, lines_read = [], sent = []\<rparr>"

section \<open>The connection session (\<^verbatim>\<open>MakeWebSocketHandler\<close>)\<close>

text \<open>
  What the handler's \<^verbatim>\<open>select\<close> receives: a tick, after which the ping is written
  with or without success, or the closing of \<^verbatim>\<open>done\<close> by the reading goroutine
  (any read error: the peer closed, the connection broke, the read deadline passed).
  The list of inputs ends where the observation of the session ends.
\<close>

datatype session_input = Tick bool | Done

datatype session_state = Active | Closed

text \<open>
  The loop of the handler with its deferred calls, which run in reverse order of
  their \<^verbatim>\<open>defer\<close>: \<^verbatim>\<open>ticker.Stop()\<close>, then \<^verbatim>\<open>conn.Close()\<close>.
\<close>

fun session_loop :: "conn \<Rightarrow> session_input list \<Rightarrow> effect list \<times> session_state" where
  "session_loop c [] = ([], Active)"
| "session_loop c (Tick ok # ins) =
     (if ok then (PingMessage c # fst (session_loop c ins), snd (session_loop c ins))
      else ([PingMessage c, StopTicker, CloseConn c], Closed))"
| "session_loop c (Done # ins) = ([Submit (unregister c), StopTicker, CloseConn c], Closed)"

text \<open>
  \<open>upgraded\<close> tells whether \<^verbatim>\<open>upgrader.Upgrade\<close> succeeds; \<open>c\<close> is the connection it
  then returns.
\<close>

definition MakeWebSocketHandler ::
  "bool \<Rightarrow> conn \<Rightarrow> session_input list \<Rightarrow> effect list \<times> session_state" where
  "MakeWebSocketHandler upgraded c ins =
     (if \<not> upgraded then ([], Closed)
      else (Submit (register c) # fst (session_loop c ins), snd (session_loop c ins)))"

section \<open>Sample inputs for the registry, the sessions and the tailer\<close>

definition example_entry :: LogEntry where
  "example_entry =
     \<lparr>Timestamp = example_time, IP = ''203.0.113.5'', Method = ''GET'', URL = ''/api/test'',
      StatusCode = 200, Size = 1234, UserAgent = ''Mozilla/5.0'',
      Referer = ''http://example.com'', Country = [], CountryFull = []\<rparr>"

text \<open>A request stamped in a zone 24 hours east of UTC, and its entry.\<close>

definition zone24_line :: string where
  "zone24_line = ''203.0.113.5 - - [17/Nov/2025:10:30:45 +2400] '' @ dq @
     ''GET /api/test HTTP/1.1'' @ dq @ '' 200 1234 '' @ dq @ ''http://example.com'' @ dq @
     '' '' @ dq @ ''Mozilla/5.0'' @ dq"

definition zone24_entry :: LogEntry where
  "zone24_entry = example_entry\<lparr>Timestamp := example_time\<lparr>ZoneOffset := 86400\<rparr>\<rparr>"

definition three_clients :: "conn \<rightharpoonup> bool" where
  "three_clients = [1 \<mapsto> True, 2 \<mapsto> True, 3 \<mapsto> True]"

definition one_client :: "conn \<rightharpoonup> bool" where
  "one_client = [1 \<mapsto> True]"

text \<open>A lookup that knows one address, and addresses kept as their text.\<close>

definition sample_db :: "string \<Rightarrow> lookup_result" where
  "sample_db ip =
     (if ip = ''203.0.113.5''
      then Found \<lparr>ISOCode = ''NL'', Names = [''en'' \<mapsto> ''Netherlands'']\<rparr>
      else NotFound)"

definition empty_db :: "string \<Rightarrow> lookup_result" where
  "empty_db ip = NotFound"

definition broken_db :: "string \<Rightarrow> lookup_result" where
  "broken_db ip = LookupError (Errorf ''unexpected end of database'')"

definition any_addr :: "string \<Rightarrow> error + string" where
  "any_addr s = Inr s"

definition no_addr :: "string \<Rightarrow> error + string" where
  "no_addr s = Inl (Errorf ''unable to parse IP'')"

definition nl :: string where
  "nl = [CHR 0x0A]"

text \<open>
  Three states of the tailer: at the \<^verbatim>\<open>select\<close> with its file read to the end,
  before \<^verbatim>\<open>os.Open\<close>, and at the \<^verbatim>\<open>select\<close> after the path was given to another
  file.
\<close>

definition tailing_state :: tailer where
  "tailing_state =
     \<lparr>at_path = Some 1, bytes = (\<lambda>i. [])(1 := ''a'' @ nl), pc = AtSelect, open_file = 1, pos = 2,
      currentInode = 1, checker_runs = True, rotated = False, live = 1, started = 1,
      lines_read = [''a'' @ nl], sent = []\<rparr>"

definition opening_state :: tailer where
  "opening_state = tail_init\<lparr>at_path := Some 1, pc := AtOpen\<rparr>"

definition rotated_state :: tailer where
  "rotated_state = tailing_state\<lparr>at_path := Some 2, bytes := (bytes tailing_state)(2 := ''c'' @ nl)\<rparr>"

text \<open>
  A rotation during which the writer still holds the old file: it appends a request
  to file 1 after the path has been given to file 2.
\<close>

definition request_line :: "string \<Rightarrow> string" where
  "request_line url =
     ''203.0.113.5 - - [17/Nov/2025:10:30:45 +0000] '' @ dq @ ''GET '' @ url @ '' HTTP/1.1'' @ dq @
     '' 200 1234 '' @ dq @ ''-'' @ dq @ '' '' @ dq @ ''Mozilla/5.0'' @ dq @ nl"

definition rotation_moves :: "move list" where
  "rotation_moves =
     [Replace (Some 1), Append 1 (request_line ''/a''),
      Session True clock1, Session True clock1, Session True clock1, Session True clock1,
      Replace (Some 2), Append 1 (request_line ''/b''), Append 2 (request_line ''/c''), Ticker,
      Session True clock2, Session True clock2, Session True clock2, Session True clock2,
      Session True clock2, Session True clock2]"

text \<open>
  A replacement by a copy: file 3 starts with the request file 1 holds.  And a file
  that vanishes between \<^verbatim>\<open>os.Open\<close> and \<^verbatim>\<open>getInode\<close>.
\<close>

definition copy_moves :: "move list" where
  "copy_moves =
     [Replace (Some 1), Append 1 (request_line ''/a''), Append 3 (request_line ''/a''),
      Session True clock1, Session True clock1, Session True clock1, Session True clock1,
      Replace (Some 3), Ticker,
      Session True clock2, Session True clock2, Session True clock2, Session True clock2,
      Session True clock2]"

definition vanish_moves :: "move list" where
  "vanish_moves =
     [Replace (Some 1), Session True clock1, Session True clock1, Replace None,
      Session True clock1]"

section \<open>Properties of the parser\<close>

subsection \<open>The search against the language\<close>

lemma bt_sound: "bt ps s = Some caps \<Longrightarrow> lang ps s caps"
  and greedy_sound: "greedy c m cap ps acc s = Some r \<Longrightarrow>
      \<exists>u v caps'. s = u @ v \<and> list_all (cmatch c) u \<and> m \<le> length acc + length u \<and>
         lang ps v caps' \<and> r = keep cap (acc @ u) caps'"
proof (induction ps s and c m cap ps acc s arbitrary: caps and r rule: bt_greedy.induct)
  case (1 s)
  then show ?case by (auto split: if_splits intro: lang_Nil)
next
  case (2 c cap ps s)
  then obtain x xs caps' where s: "s = x # xs" and cx: "cmatch c x"
    and b: "bt ps xs = Some caps'" and caps: "caps = keep cap [x] caps'"
    by (auto split: list.splits if_splits)
  have "lang (Piece c Once cap # ps) ([x] @ xs) (keep cap [x] caps')"
    by (rule lang_Cons) (use cx b 2 s in auto)
  then show ?case using s caps by simp
next
  case (3 c cap ps s)
  then obtain u v caps' where "s = u @ v" "list_all (cmatch c) u" "lang ps v caps'"
    "caps = keep cap u caps'" by fastforce
  then show ?case using lang_Cons[of c u Star ps v caps' cap] by simp
next
  case (4 c cap ps s)
  then obtain u v caps' where "s = u @ v" "list_all (cmatch c) u" "1 \<le> length u" "lang ps v caps'"
    "caps = keep cap u caps'" by fastforce
  then show ?case using lang_Cons[of c u Plus ps v caps' cap] by simp
next
  case (5 c m cap ps acc)
  then obtain caps' where "m \<le> length acc" "bt ps [] = Some caps'" "r = keep cap acc caps'"
    by (auto split: if_splits)
  with 5 show ?case by (intro exI[of _ "[]"] exI[of _ "[]"] exI[of _ caps']) auto
next
  case (6 c m cap ps acc x xs)
  show ?case
  proof (cases "cmatch c x \<and> greedy c m cap ps (acc @ [x]) xs \<noteq> None")
    case True
    then have g: "greedy c m cap ps (acc @ [x]) xs = Some r" using 6(3) by auto
    from 6(1)[OF _ g] True obtain u v caps' where
      "xs = u @ v" "list_all (cmatch c) u" "m \<le> length (acc @ [x]) + length u"
      "lang ps v caps'" "r = keep cap ((acc @ [x]) @ u) caps'" by blast
    with True show ?thesis by (intro exI[of _ "x # u"] exI[of _ v] exI[of _ caps']) auto
  next
    case False
    then have inner: "(if cmatch c x then greedy c m cap ps (acc @ [x]) xs else None) = None"
      by auto
    with 6(3) obtain caps' where m: "m \<le> length acc" and b: "bt ps (x # xs) = Some caps'"
      and r: "r = keep cap acc caps'" by (auto split: if_splits)
    from 6(2)[OF inner m b] m r show ?thesis
      by (intro exI[of _ "[]"] exI[of _ "x # xs"] exI[of _ caps']) auto
  qed
qed

lemma greedy_complete:
  "list_all (cmatch c) u \<Longrightarrow> m \<le> length acc + length u \<Longrightarrow> bt ps v \<noteq> None \<Longrightarrow>
   greedy c m cap ps acc (u @ v) \<noteq> None"
proof (induction u arbitrary: acc)
  case Nil
  then show ?case by (cases v) (auto split: option.splits)
next
  case (Cons x u)
  from Cons.IH[of "acc @ [x]"] Cons.prems show ?case by (auto split: option.splits)
qed

lemma bt_complete: "lang ps s caps \<Longrightarrow> bt ps s \<noteq> None"
proof (induction rule: lang.induct)
  case lang_Nil
  then show ?case by simp
next
  case (lang_Cons c u q ps v caps cap)
  show ?case
  proof (cases q)
    case Once
    with lang_Cons obtain x where "u = [x]" by (cases u) auto
    with lang_Cons Once show ?thesis by auto
  next
    case Star
    with lang_Cons greedy_complete[of c u 0 "[]" ps v cap] show ?thesis by simp
  next
    case Plus
    with lang_Cons greedy_complete[of c u 1 "[]" ps v cap] show ?thesis by simp
  qed
qed

lemma lang_length: "lang ps s caps \<Longrightarrow> length caps = length (filter captures ps)"
  by (induction rule: lang.induct) (auto simp: keep_def)

lemma logRegex_groups: "length (filter captures logRegex) = 8"
  by (simp add: logRegex_def lit_def)

lemma FindStringSubmatch_logRegex_length:
  "length (FindStringSubmatch logRegex s) = (if combined_shape s then 9 else 0)"
  using bt_complete[of logRegex s] bt_sound[of logRegex s] lang_length[of logRegex s] logRegex_groups 
  by (auto simp: FindStringSubmatch_def combined_shape_def split: option.splits)

lemma combined_shape_iff: "combined_shape s \<longleftrightarrow> bt logRegex s \<noteq> None"
  using bt_complete[of logRegex s] bt_sound[of logRegex s]
  by (auto simp: combined_shape_def)

lemma lang_fits: "lang ps s caps \<Longrightarrow> list_all2 fits (filter captures ps) caps"
  by (induction rule: lang.induct) (auto simp: keep_def)

lemma logRegex_captures:
  "filter captures logRegex =
     [Piece NotSpace Plus True, Piece (NotChar CHR '']'') Plus True, Piece NotSpace Plus True,
      Piece (NotChar CHR 0x22) Star True, Piece Digit Plus True, Piece Digit Plus True,
      Piece (NotChar CHR 0x22) Star True, Piece (NotChar CHR 0x22) Star True]"
  by (simp add: logRegex_def lit_def)

lemma lang_logRegex_groups:
  assumes "lang logRegex s m"
  shows "length m = 8 \<and> word Digit (m ! 4) \<and> word Digit (m ! 5)"
proof -
  from lang_fits[OF assms] have l: "list_all2 fits
     [Piece NotSpace Plus True, Piece (NotChar CHR '']'') Plus True, Piece NotSpace Plus True,
      Piece (NotChar CHR 0x22) Star True, Piece Digit Plus True, Piece Digit Plus True,
      Piece (NotChar CHR 0x22) Star True, Piece (NotChar CHR 0x22) Star True] m"
    by (simp only: logRegex_captures)
  then have len: "length m = 8" by (auto dest: list_all2_lengthD)
  from l have "fits (Piece Digit Plus True) (m ! 4)" "fits (Piece Digit Plus True) (m ! 5)"
    by (auto simp: list_all2_Cons1)
  then show ?thesis using len by (auto simp: word_def)
qed

lemma FindStringSubmatch_match:
  assumes "combined_shape s"
  obtains m where "FindStringSubmatch logRegex s = s # m" "lang logRegex s m" "length m = 8"
    "word Digit (m ! 4)" "word Digit (m ! 5)"
proof -
  from assms obtain m where b: "bt logRegex s = Some m"
    by (auto simp: combined_shape_iff)
  then have "lang logRegex s m" by (rule bt_sound)
  with b lang_logRegex_groups[of s m] that show thesis
    by (simp add: FindStringSubmatch_def)
qed

lemma FindStringSubmatch_no_match:
  "\<not> combined_shape s \<Longrightarrow> FindStringSubmatch logRegex s = []"
  by (simp add: combined_shape_iff FindStringSubmatch_def)

lemma dec_nonneg_aux: "0 \<le> n \<Longrightarrow> 0 \<le> foldl (\<lambda>n c. 10 * n + digit_val c) n s"
  by (induction s arbitrary: n) (auto simp: digit_val_def)

lemma dec_nonneg: "0 \<le> dec s"
  by (simp add: dec_def dec_nonneg_aux)

lemma Atoi_digits:
  assumes "word Digit s"
  shows "Atoi s = (if dec s \<le> maxInt then Inr (dec s) else Inl ErrRange)"
proof -
  from assms obtain d ds where s: "s = d # ds" and d: "isDigit d" and all: "list_all isDigit s"
    by (cases s) (auto simp: word_def isDigit_def list_all_iff)
  from d have sign: "d \<noteq> CHR ''-''" "d \<noteq> CHR ''+''" by (auto simp: isDigit_def)
  have "minInt \<le> dec s" using dec_nonneg[of s] by (simp add: minInt_def)
  with s sign all show ?thesis by (auto simp: Atoi_def Let_def)
qed

subsection \<open>The search on a line given by its parts\<close>

lemma greedy_lit:
  "list_all (cmatch c) u \<Longrightarrow> \<not> cmatch c d \<Longrightarrow> m \<le> length acc + length u \<Longrightarrow>
   greedy c m cap (Piece (Lit d) Once cap' # ps) acc (u @ d # v) =
     map_option (keep cap (acc @ u)) (map_option (keep cap' [d]) (bt ps v))"
proof (induction u arbitrary: acc)
  case Nil
  then show ?case by simp
next
  case (Cons y u)
  from Cons.prems have "y \<noteq> d" by auto
  with Cons.IH[of "acc @ [y]"] Cons.prems show ?case
    by (auto split: option.splits)
qed

lemma greedy_skip:
  "list_all (cmatch c) u \<Longrightarrow> greedy c m cap ps (acc @ u) t = Some r \<Longrightarrow>
   greedy c m cap ps acc (u @ t) = Some r"
  by (induction u arbitrary: acc) auto

lemma greedy_fail:
  "list_all (cmatch c) w \<Longrightarrow> \<not> cmatch c x \<Longrightarrow>
   (\<forall>j. 0 < j \<and> j \<le> length w \<longrightarrow> bt ps (drop j w @ x # v) = None) \<Longrightarrow>
   greedy c m cap ps acc (w @ x # v) =
     (if m \<le> length acc then map_option (keep cap acc) (bt ps (w @ x # v)) else None)"
proof (induction w arbitrary: acc)
  case Nil
  then show ?case by simp
next
  case (Cons y w)
  have tl_none: "\<forall>j. 0 < j \<and> j \<le> length w \<longrightarrow> bt ps (drop j w @ x # v) = None"
  proof (intro allI impI)
    fix j assume "0 < j \<and> j \<le> length w"
    then have "bt ps (drop (Suc j) (y # w) @ x # v) = None"
      using Cons.prems(3) by (metis Suc_le_mono length_Cons zero_less_Suc)
    then show "bt ps (drop j w @ x # v) = None" by simp
  qed
  have "bt ps (drop 1 (y # w) @ x # v) = None"
    using Cons.prems(3) by (metis One_nat_def Suc_le_mono length_Cons less_one zero_le)
  then have here: "bt ps (w @ x # v) = None" by simp
  from Cons.IH[OF _ Cons.prems(2) tl_none, of "acc @ [y]"] Cons.prems(1) here
  have "greedy c m cap ps (acc @ [y]) (w @ x # v) = None" by simp
  with Cons.prems(1) show ?case by simp
qed

lemma greedy_end:
  "list_all (cmatch c) u \<Longrightarrow> m \<le> length acc + length u \<Longrightarrow>
   greedy c m cap [] acc u = Some (keep cap (acc @ u) [])"
  by (induction u arbitrary: acc) auto


lemma bt_space_run_None:
  assumes t: "list_all (cmatch (NotChar q)) t" and q: "q \<noteq> CHR '' ''"
    and none: "bt ps v = None"
  shows "bt (Piece (Lit CHR '' '') Once False # Piece (NotChar q) Star cap2 #
             Piece (Lit q) Once cap3 # ps) (t @ q # v) = None"
proof (cases t)
  case Nil
  then show ?thesis using q by simp
next
  case (Cons y t')
  with t have t': "list_all (cmatch (NotChar q)) t'" by simp
  have "greedy (NotChar q) 0 cap2 (Piece (Lit q) Once cap3 # ps) [] (t' @ q # v) = None"
    using greedy_lit[OF t', of q 0 "[]" cap2 cap3 ps v] none by simp
  then show ?thesis using Cons by simp
qed

lemma greedy_url:
  assumes url: "list_all (cmatch (NotChar q)) url"
    and proto: "list_all (\<lambda>x. x \<noteq> q \<and> x \<noteq> CHR '' '') proto"
    and q: "q \<noteq> CHR '' ''"
  shows "greedy (NotChar q) 0 cap
           (Piece (Lit CHR '' '') Once False # Piece (NotChar q) Star cap2 #
            Piece (Lit q) Once cap3 # ps) [] (url @ CHR '' '' # proto @ q # v) =
         map_option (keep cap url)
           (map_option (keep cap2 proto) (map_option (keep cap3 [q]) (bt ps v)))"
proof -
  let ?tl = "Piece (NotChar q) Star cap2 # Piece (Lit q) Once cap3 # ps"
  let ?ps = "Piece (Lit CHR '' '') Once False # ?tl"
  let ?w = "CHR '' '' # proto"
  have p: "list_all (cmatch (NotChar q)) proto" using proto by (auto simp: list_all_iff)
  have w: "list_all (cmatch (NotChar q)) ?w" using p q by simp
  have cont: "bt ?ps (?w @ q # v) =
      map_option (keep cap2 proto) (map_option (keep cap3 [q]) (bt ps v))"
    using greedy_lit[OF p, of q 0 "[]" cap2 cap3 ps v]
    by (simp add: keep_def option.map_comp comp_def option.map_ident)
  show ?thesis
  proof (cases "bt ps v")
    case None
    let ?run = "url @ ?w"
    have run: "list_all (cmatch (NotChar q)) ?run" using url w by simp
    have all_none: "bt ?ps (drop j ?run @ q # v) = None" for j
    proof (rule bt_space_run_None[OF _ q None])
      show "list_all (cmatch (NotChar q)) (drop j ?run)"
        using run by (metis append_take_drop_id list_all_append)
    qed
    have "greedy (NotChar q) 0 cap ?ps [] (?run @ q # v) =
        (if 0 \<le> length ([]::string) then map_option (keep cap []) (bt ?ps (?run @ q # v)) else None)"
      by (rule greedy_fail[OF run]) (use all_none in auto)
    also have "\<dots> = None" using all_none[of 0] by simp
    finally show ?thesis using None by simp
  next
    case (Some r)
    have none: "\<forall>j. 0 < j \<and> j \<le> length ?w \<longrightarrow> bt ?ps (drop j ?w @ q # v) = None"
    proof (intro allI impI)
      fix j assume j: "0 < j \<and> j \<le> length ?w"
      then obtain k where k: "j = Suc k" "k \<le> length proto" by (cases j) auto
      show "bt ?ps (drop j ?w @ q # v) = None"
      proof (cases "k < length proto")
        case True
        then have "drop k proto = proto ! k # drop (Suc k) proto" by (simp add: Cons_nth_drop_Suc)
        moreover have "proto ! k \<noteq> CHR '' ''" using proto True by (auto simp: list_all_length)
        ultimately show ?thesis using k by simp
      next
        case False
        with k have "drop k proto = []" by simp
        then show ?thesis using k q by simp
      qed
    qed
    have "greedy (NotChar q) 0 cap ?ps ([] @ url) (?w @ q # v) =
        (if 0 \<le> length ([] @ url) then map_option (keep cap ([] @ url)) (bt ?ps (?w @ q # v)) else None)"
      by (rule greedy_fail[OF w _ none]) simp
    then have "greedy (NotChar q) 0 cap ?ps ([] @ url) (?w @ q # v) =
        Some (keep cap url (keep cap2 proto (keep cap3 [q] r)))"
      unfolding cont Some by simp
    from greedy_skip[OF url this] show ?thesis using Some by simp
  qed
qed

lemma greedy_lit0:
  "list_all (cmatch c) u \<Longrightarrow> \<not> cmatch c d \<Longrightarrow> 
   greedy c 0 cap (Piece (Lit d) Once cap' # ps) [] (u @ d # v) =
     map_option (keep cap u) (map_option (keep cap' [d]) (bt ps v))"
  using greedy_lit[of c u d 0 "[]" cap cap' ps v] by simp

lemma greedy_lit1:
  "list_all (cmatch c) u \<Longrightarrow> \<not> cmatch c d \<Longrightarrow> u \<noteq> [] \<Longrightarrow>
   greedy c (Suc 0) cap (Piece (Lit d) Once cap' # ps) [] (u @ d # v) =
     map_option (keep cap u) (map_option (keep cap' [d]) (bt ps v))"
  using greedy_lit[of c u d "Suc 0" "[]" cap cap' ps v] by (cases u) auto


lemma greedy_end0:
  "list_all (cmatch c) u \<Longrightarrow> greedy c 0 cap [] [] u = Some (keep cap u [])"
  using greedy_end[of c u 0 "[]" cap] by simp

lemma bt_assemble:
  assumes "wellformed p"
  shows "bt logRegex (assemble p) =
    Some [p_ip p, p_ts p, p_method p, p_url p, p_status p, p_size p, p_referer p, p_agent p]"
  using assms unfolding wellformed_def logRegex_def lit_def assemble_def word_def
  by (simp add: greedy_lit0 greedy_lit1 greedy_url greedy_end0 keep_def del: greedy.simps)

subsection \<open>Lines the search rejects\<close>

lemma greedy_no_word:
  assumes bad: "u = [] \<or> \<not> list_all (cmatch c) u"
    and nod: "d \<notin> set u" and d: "\<not> cmatch c d"
  shows "greedy c (Suc 0) cap (Piece (Lit d) Once cap' # ps) [] (u @ d # v) = None"
proof (cases "u = []")
  case True
  with d show ?thesis by simp
next
  case False
  with bad have nall: "\<not> list_all (cmatch c) u" by simp
  define w where "w = takeWhile (cmatch c) u"
  define r where "r = dropWhile (cmatch c) u"
  from nall have "r \<noteq> []" by (simp add: r_def list_all_iff)
  then obtain y r' where yr: "r = y # r'" by (cases r) auto
  have ny: "\<not> cmatch c y"
    using yr hd_dropWhile[of "cmatch c" u] \<open>r \<noteq> []\<close> by (simp add: r_def)
  have "y \<in> set u" using yr set_dropWhileD[of y "cmatch c" u] by (simp add: r_def)
  with nod have yd: "y \<noteq> d" by auto
  have wc: "list_all (cmatch c) w"
    using set_takeWhileD[of _ "cmatch c" u] by (auto simp: w_def list_all_iff)
  have u: "u = w @ y # r'" using yr takeWhile_dropWhile_id[of "cmatch c" u] by (simp add: w_def r_def)
  let ?ps = "Piece (Lit d) Once cap' # ps"
  have none: "bt ?ps (drop j w @ y # r' @ d # v) = None" for j
  proof (cases "drop j w")
    case Nil
    then show ?thesis using yd by simp
  next
    case (Cons x xs)
    then have "x \<in> set w" by (metis in_set_dropD list.set_intros(1))
    with wc have "cmatch c x" by (simp add: list_all_iff)
    with d have "x \<noteq> d" by auto
    with Cons show ?thesis by simp
  qed
  have "greedy c (Suc 0) cap ?ps [] (w @ y # (r' @ d # v)) =
      (if Suc 0 \<le> length ([]::string) then map_option (keep cap []) (bt ?ps (w @ y # (r' @ d # v))) else None)"
    by (rule greedy_fail[OF wc ny]) (use none in auto)
  then have "greedy c (Suc 0) cap ?ps [] (w @ y # r' @ d # v) = None" by simp
  then show ?thesis by (simp add: u)
qed

lemma bt_bad_status:
  assumes wf: "wellformed (p\<lparr>p_status := ''0''\<rparr>)"
    and f: "spaceless (p_status p)" and bad: "\<not> word Digit (p_status p)"
  shows "bt logRegex (assemble p) = None"
proof -
  have g: "greedy Digit (Suc 0) True (Piece (Lit CHR '' '') Once False # ps) []
      (p_status p @ CHR '' '' # v) = None" for ps v
    by (rule greedy_no_word) (use f bad in \<open>auto simp: spaceless_def word_def\<close>)
  show ?thesis
    using wf unfolding wellformed_def logRegex_def lit_def assemble_def word_def
    by (simp add: greedy_lit0 greedy_lit1 greedy_url g keep_def del: greedy.simps)
qed

lemma bt_bad_size:
  assumes wf: "wellformed (p\<lparr>p_size := ''0''\<rparr>)"
    and f: "spaceless (p_size p)" and bad: "\<not> word Digit (p_size p)"
  shows "bt logRegex (assemble p) = None"
proof -
  have g: "greedy Digit (Suc 0) True (Piece (Lit CHR '' '') Once False # ps) []
      (p_size p @ CHR '' '' # v) = None" for ps v
    by (rule greedy_no_word) (use f bad in \<open>auto simp: spaceless_def word_def\<close>)
  show ?thesis
    using wf unfolding wellformed_def logRegex_def lit_def assemble_def word_def
    by (simp add: greedy_lit0 greedy_lit1 greedy_url g keep_def del: greedy.simps)
qed


lemma lang_literals: "lang ps s caps \<Longrightarrow> length (filter (is_lit d) ps) \<le> count_list s d"
proof (induction rule: lang.induct)
  case lang_Nil
  then show ?case by simp
next
  case (lang_Cons c u q ps v caps cap)
  show ?case
  proof (cases "is_lit d (Piece c q cap)")
    case True
    with lang_Cons obtain x where "u = [x]" by (cases u) auto
    with True lang_Cons show ?thesis by auto
  next
    case False
    with lang_Cons show ?thesis by auto
  qed
qed

lemma logRegex_quotes: "length (filter (is_lit CHR 0x22) logRegex) = 6"
  by (simp add: logRegex_def lit_def)

lemma few_quotes: "count_list line CHR 0x22 < 6 \<Longrightarrow> \<not> combined_shape line"
  using lang_literals[of logRegex line _ "CHR 0x22"] logRegex_quotes
  by (fastforce simp: combined_shape_def)

subsection \<open>What \<^verbatim>\<open>parseNginxLog\<close> returns\<close>

lemma parseNginxLog_match:
  assumes "FindStringSubmatch logRegex line = line # m" "length m = 8"
    "word Digit (m ! 4)" "word Digit (m ! 5)"
  shows "parseNginxLog now line =
     Inr \<lparr>Timestamp = (case time_Parse (m ! 1) of Inl err \<Rightarrow> now | Inr t \<Rightarrow> t),
          IP = m ! 0, Method = m ! 2, URL = m ! 3,
          StatusCode = (if dec (m ! 4) \<le> maxInt then dec (m ! 4) else 0),
          Size = (if dec (m ! 5) \<le> maxInt then dec (m ! 5) else 0),
          UserAgent = m ! 7, Referer = m ! 6, Country = [], CountryFull = []\<rparr>"
  using assms by (simp add: parseNginxLog_def Let_def Atoi_digits)

lemma example_line_eval:
  "parseNginxLog now example_line =
     Inr \<lparr>Timestamp = example_time, IP = ''203.0.113.5'', Method = ''GET'', URL = ''/api/test'',
          StatusCode = 200, Size = 1234, UserAgent = ''Mozilla/5.0'',
          Referer = ''http://example.com'', Country = [], CountryFull = []\<rparr>"
  by code_simp

text \<open>
  Claim C1, as the code has it.  A line of the language is accepted, and the address,
  method, path, referer and user agent of the entry are the groups Go's search
  captures.  The status code and the size are the decimal values of their groups
  when these fit a 64-bit \<^verbatim>\<open>int\<close>, and 0 otherwise.  For a line given by its parts the
  groups are the parts.  The example line of the specification gives the entry the
  specification lists, whatever the clock reads.
\<close>

theorem parseNginxLog_fields:
  "(combined_shape line \<longrightarrow>
      (\<exists>m e. FindStringSubmatch logRegex line = line # m \<and> lang logRegex line m \<and>
         parseNginxLog now line = Inr e \<and>
         IP e = m ! 0 \<and> Method e = m ! 2 \<and> URL e = m ! 3 \<and>
         StatusCode e = (if dec (m ! 4) \<le> maxInt then dec (m ! 4) else 0) \<and>
         Size e = (if dec (m ! 5) \<le> maxInt then dec (m ! 5) else 0) \<and>
         Referer e = m ! 6 \<and> UserAgent e = m ! 7)) \<and>
   (wellformed p \<longrightarrow>
      parseNginxLog now (assemble p) =
        Inr \<lparr>Timestamp = (case time_Parse (p_ts p) of Inl err \<Rightarrow> now | Inr t \<Rightarrow> t),
             IP = p_ip p, Method = p_method p, URL = p_url p,
             StatusCode = (if dec (p_status p) \<le> maxInt then dec (p_status p) else 0),
             Size = (if dec (p_size p) \<le> maxInt then dec (p_size p) else 0),
             UserAgent = p_agent p, Referer = p_referer p, Country = [], CountryFull = []\<rparr>) \<and>
   parseNginxLog now example_line =
     Inr \<lparr>Timestamp = example_time, IP = ''203.0.113.5'', Method = ''GET'', URL = ''/api/test'',
          StatusCode = 200, Size = 1234, UserAgent = ''Mozilla/5.0'',
          Referer = ''http://example.com'', Country = [], CountryFull = []\<rparr>"
proof (intro conjI impI)
  assume "combined_shape line"
  then obtain m where m: "FindStringSubmatch logRegex line = line # m" "lang logRegex line m"
    "length m = 8" "word Digit (m ! 4)" "word Digit (m ! 5)"
    by (rule FindStringSubmatch_match)
  from parseNginxLog_match[OF m(1,3,4,5), of now] m(1,2)
  show "\<exists>m e. FindStringSubmatch logRegex line = line # m \<and> lang logRegex line m \<and>
         parseNginxLog now line = Inr e \<and>
         IP e = m ! 0 \<and> Method e = m ! 2 \<and> URL e = m ! 3 \<and>
         StatusCode e = (if dec (m ! 4) \<le> maxInt then dec (m ! 4) else 0) \<and>
         Size e = (if dec (m ! 5) \<le> maxInt then dec (m ! 5) else 0) \<and>
         Referer e = m ! 6 \<and> UserAgent e = m ! 7"
    by (intro exI[of _ m]) simp
next
  assume wf: "wellformed p"
  let ?m = "[p_ip p, p_ts p, p_method p, p_url p, p_status p, p_size p, p_referer p, p_agent p]"
  have f: "FindStringSubmatch logRegex (assemble p) = assemble p # ?m"
    by (simp add: FindStringSubmatch_def bt_assemble[OF wf])
  from wf have d: "word Digit (?m ! 4)" "word Digit (?m ! 5)" by (simp_all add: wellformed_def)
  from parseNginxLog_match[OF f _ d, of now]
  show "parseNginxLog now (assemble p) =
        Inr \<lparr>Timestamp = (case time_Parse (p_ts p) of Inl err \<Rightarrow> now | Inr t \<Rightarrow> t),
             IP = p_ip p, Method = p_method p, URL = p_url p,
             StatusCode = (if dec (p_status p) \<le> maxInt then dec (p_status p) else 0),
             Size = (if dec (p_size p) \<le> maxInt then dec (p_size p) else 0),
             UserAgent = p_agent p, Referer = p_referer p, Country = [], CountryFull = []\<rparr>"
    by simp
next
  show "parseNginxLog now example_line =
     Inr \<lparr>Timestamp = example_time, IP = ''203.0.113.5'', Method = ''GET'', URL = ''/api/test'',
          StatusCode = 200, Size = 1234, UserAgent = ''Mozilla/5.0'',
          Referer = ''http://example.com'', Country = [], CountryFull = []\<rparr>"
    by (rule example_line_eval)
qed

lemma example_shape: "combined_shape example_line"
  unfolding combined_shape_iff by code_simp

lemma example_wellformed: "wellformed example_parts \<and> assemble example_parts = example_line"
  by code_simp

theorem parseNginxLog_fields_witness:
  "combined_shape example_line \<and> wellformed example_parts \<and>
   parseNginxLog clock1 (assemble example_parts) =
     Inr \<lparr>Timestamp = example_time, IP = ''203.0.113.5'', Method = ''GET'', URL = ''/api/test'',
          StatusCode = 200, Size = 1234, UserAgent = ''Mozilla/5.0'',
          Referer = ''http://example.com'', Country = [], CountryFull = []\<rparr>"
proof -
  have w: "wellformed example_parts" using example_wellformed by simp
  have ev: "Inr \<lparr>Timestamp = (case time_Parse (p_ts example_parts) of Inl err \<Rightarrow> clock1 | Inr t \<Rightarrow> t),
             IP = p_ip example_parts, Method = p_method example_parts, URL = p_url example_parts,
             StatusCode = (if dec (p_status example_parts) \<le> maxInt
                           then dec (p_status example_parts) else 0),
             Size = (if dec (p_size example_parts) \<le> maxInt then dec (p_size example_parts) else 0),
             UserAgent = p_agent example_parts, Referer = p_referer example_parts,
             Country = [], CountryFull = []\<rparr> =
        (Inr \<lparr>Timestamp = example_time, IP = ''203.0.113.5'', Method = ''GET'', URL = ''/api/test'',
          StatusCode = 200, Size = 1234, UserAgent = ''Mozilla/5.0'',
          Referer = ''http://example.com'', Country = [], CountryFull = []\<rparr> :: error + LogEntry)"
    by code_simp
  from parseNginxLog_fields[of example_line clock1 example_parts] w
  have "parseNginxLog clock1 (assemble example_parts) =
        Inr \<lparr>Timestamp = (case time_Parse (p_ts example_parts) of Inl err \<Rightarrow> clock1 | Inr t \<Rightarrow> t),
             IP = p_ip example_parts, Method = p_method example_parts, URL = p_url example_parts,
             StatusCode = (if dec (p_status example_parts) \<le> maxInt
                           then dec (p_status example_parts) else 0),
             Size = (if dec (p_size example_parts) \<le> maxInt then dec (p_size example_parts) else 0),
             UserAgent = p_agent example_parts, Referer = p_referer example_parts,
             Country = [], CountryFull = []\<rparr>"
    by (elim conjE) (erule (1) impE[rotated], assumption)
  with ev w example_shape show ?thesis by (simp only: simp_thms)
qed

theorem parseNginxLog_overflow_counterexample:
  "FindStringSubmatch logRegex overflow_line =
     [overflow_line, ''198.51.100.7'', ''17/Nov/2025:10:30:45 +0000'', ''GET'', ''/'',
      ''99999999999999999999'', ''5'', ''-'', ''curl''] \<and>
   parseNginxLog clock1 overflow_line =
     Inr \<lparr>Timestamp = example_time, IP = ''198.51.100.7'', Method = ''GET'', URL = ''/'',
          StatusCode = 0, Size = 5, UserAgent = ''curl'', Referer = ''-'',
          Country = [], CountryFull = []\<rparr> \<and>
   dec ''99999999999999999999'' = 99999999999999999999 \<and>
   dec ''0'' = 0"
  by code_simp

text \<open>
  Claim C2.  A line outside the language of the pattern is answered by the error that
  quotes the line, and by no entry.  Outside the language are: every line with fewer
  than six double quotes, so every line that lacks a quoted section or a closing
  quote; every line given by its parts whose status field, or whose size field, is
  not a number.  Four such lines are named: the request field lacks its closing
  quote, the quoted user agent is missing, the status is not a number, the size is
  not a number.
\<close>

theorem parseNginxLog_rejects:
  "(\<not> combined_shape line \<longrightarrow>
      parseNginxLog now line = Inl (Errorf (''failed to parse log line: '' @ line))) \<and>
   (count_list line CHR 0x22 < 6 \<longrightarrow> \<not> combined_shape line) \<and>
   (wellformed (p\<lparr>p_status := ''0''\<rparr>) \<and> spaceless (p_status p) \<and> \<not> word Digit (p_status p) \<longrightarrow>
      \<not> combined_shape (assemble p)) \<and>
   (wellformed (p\<lparr>p_size := ''0''\<rparr>) \<and> spaceless (p_size p) \<and> \<not> word Digit (p_size p) \<longrightarrow>
      \<not> combined_shape (assemble p)) \<and>
   \<not> combined_shape missing_quote_line \<and> \<not> combined_shape missing_agent_line \<and>
   \<not> combined_shape bad_status_line \<and> \<not> combined_shape bad_size_line"
proof (intro conjI impI)
  assume "\<not> combined_shape line"
  then show "parseNginxLog now line = Inl (Errorf (''failed to parse log line: '' @ line))"
    by (simp add: parseNginxLog_def FindStringSubmatch_no_match)
next
  assume "count_list line CHR 0x22 < 6"
  then show "\<not> combined_shape line" by (rule few_quotes)
next
  assume "wellformed (p\<lparr>p_status := ''0''\<rparr>) \<and> spaceless (p_status p) \<and> \<not> word Digit (p_status p)"
  then show "\<not> combined_shape (assemble p)" by (simp add: combined_shape_iff bt_bad_status)
next
  assume "wellformed (p\<lparr>p_size := ''0''\<rparr>) \<and> spaceless (p_size p) \<and> \<not> word Digit (p_size p)"
  then show "\<not> combined_shape (assemble p)" by (simp add: combined_shape_iff bt_bad_size)
next
  show "\<not> combined_shape missing_quote_line" unfolding combined_shape_iff by code_simp
next
  show "\<not> combined_shape missing_agent_line" unfolding combined_shape_iff by code_simp
next
  show "\<not> combined_shape bad_status_line" unfolding combined_shape_iff by code_simp
next
  show "\<not> combined_shape bad_size_line" unfolding combined_shape_iff by code_simp
qed

lemma bad_parts_eval:
  "wellformed (example_parts\<lparr>p_status := ''0''\<rparr>) \<and>
   spaceless (p_status (example_parts\<lparr>p_status := ''abc''\<rparr>)) \<and>
   \<not> word Digit (p_status (example_parts\<lparr>p_status := ''abc''\<rparr>)) \<and>
   assemble (example_parts\<lparr>p_status := ''abc''\<rparr>) = bad_status_line \<and>
   count_list missing_quote_line CHR 0x22 = 5 \<and>
   count_list missing_agent_line CHR 0x22 = 4"
  by code_simp

theorem parseNginxLog_rejects_witness:
  "count_list missing_quote_line CHR 0x22 < 6 \<and>
   parseNginxLog clock1 missing_quote_line =
     Inl (Errorf (''failed to parse log line: '' @ missing_quote_line)) \<and>
   wellformed (example_parts\<lparr>p_status := ''0''\<rparr>) \<and>
   spaceless ''abc'' \<and> \<not> word Digit ''abc'' \<and>
   parseNginxLog clock1 (assemble (example_parts\<lparr>p_status := ''abc''\<rparr>)) =
     Inl (Errorf (''failed to parse log line: '' @ assemble (example_parts\<lparr>p_status := ''abc''\<rparr>)))"
proof -
  have q: "count_list missing_quote_line CHR 0x22 < 6" using bad_parts_eval by simp
  from parseNginxLog_rejects[of missing_quote_line clock1 example_parts] q
  have 1: "parseNginxLog clock1 missing_quote_line =
     Inl (Errorf (''failed to parse log line: '' @ missing_quote_line))" by blast
  have w: "wellformed ((example_parts\<lparr>p_status := ''abc''\<rparr>)\<lparr>p_status := ''0''\<rparr>) \<and>
      spaceless (p_status (example_parts\<lparr>p_status := ''abc''\<rparr>)) \<and>
      \<not> word Digit (p_status (example_parts\<lparr>p_status := ''abc''\<rparr>))"
    using bad_parts_eval by simp
  from parseNginxLog_rejects[of "assemble (example_parts\<lparr>p_status := ''abc''\<rparr>)" clock1
      "example_parts\<lparr>p_status := ''abc''\<rparr>"] w
  have 2: "parseNginxLog clock1 (assemble (example_parts\<lparr>p_status := ''abc''\<rparr>)) =
     Inl (Errorf (''failed to parse log line: '' @ assemble (example_parts\<lparr>p_status := ''abc''\<rparr>)))"
    by blast
  from q 1 2 w bad_parts_eval show ?thesis by simp
qed

text \<open>
  Claim C9.  On a line of the language the entry never fails: a timestamp that
  \<^verbatim>\<open>time.Parse\<close> rejects is replaced by the clock reading, a status or size that
  \<^verbatim>\<open>strconv.Atoi\<close> rejects by 0, and a field that converts keeps its value.
\<close>

theorem parseNginxLog_lenient:
  "combined_shape line \<Longrightarrow>
   \<exists>m e. FindStringSubmatch logRegex line = line # m \<and> parseNginxLog now line = Inr e \<and>
     Timestamp e = (case time_Parse (m ! 1) of Inl err \<Rightarrow> now | Inr t \<Rightarrow> t) \<and>
     StatusCode e = (case Atoi (m ! 4) of Inl err \<Rightarrow> 0 | Inr n \<Rightarrow> n) \<and>
     Size e = (case Atoi (m ! 5) of Inl err \<Rightarrow> 0 | Inr n \<Rightarrow> n)"
proof -
  assume "combined_shape line"
  then obtain m where m: "FindStringSubmatch logRegex line = line # m" "length m = 8"
    by (rule FindStringSubmatch_match)
  then show ?thesis
    by (intro exI[of _ m]) (simp add: parseNginxLog_def Let_def)
qed

lemma lenient_line_eval:
  "combined_shape lenient_line \<and>
   FindStringSubmatch logRegex lenient_line =
     [lenient_line, ''198.51.100.7'', ''yesterday'', ''GET'', ''/'',
      ''18446744073709551616'', ''9223372036854775808'', ''-'', ''curl''] \<and>
   time_Parse ''yesterday'' = Inl ErrTimeParse \<and>
   Atoi ''18446744073709551616'' = Inl ErrRange \<and>
   Atoi ''9223372036854775808'' = Inl ErrRange"
  unfolding combined_shape_iff by code_simp

theorem parseNginxLog_lenient_witness:
  "combined_shape lenient_line \<and>
   time_Parse ''yesterday'' = Inl ErrTimeParse \<and>
   Atoi ''18446744073709551616'' = Inl ErrRange \<and>
   Atoi ''9223372036854775808'' = Inl ErrRange \<and>
   (\<exists>e. parseNginxLog clock1 lenient_line = Inr e \<and>
        Timestamp e = clock1 \<and> StatusCode e = 0 \<and> Size e = 0)"
  using parseNginxLog_lenient[of lenient_line clock1] lenient_line_eval
  by auto

text \<open>
  Claim C10, as the code has it.  The clock is read when a matching line carries a
  timestamp that does not parse, and then the entry's timestamp is the reading.  Two
  evaluations of one line agree when the line is rejected or its timestamp parses,
  and always agree on every field other than the timestamp.
\<close>

theorem parseNginxLog_clock:
  "(\<not> combined_shape line \<longrightarrow> parseNginxLog now1 line = parseNginxLog now2 line) \<and>
   (\<forall>m t. FindStringSubmatch logRegex line = line # m \<and> time_Parse (m ! 1) = Inr t \<longrightarrow>
      parseNginxLog now1 line = parseNginxLog now2 line) \<and>
   map_sum id (\<lambda>e. e\<lparr>Timestamp := t0\<rparr>) (parseNginxLog now1 line) =
   map_sum id (\<lambda>e. e\<lparr>Timestamp := t0\<rparr>) (parseNginxLog now2 line)"
  by (auto simp: parseNginxLog_def Let_def FindStringSubmatch_no_match)

theorem parseNginxLog_clock_witness:
  "\<not> combined_shape bad_size_line \<and>
   parseNginxLog clock1 bad_size_line = parseNginxLog clock2 bad_size_line \<and>
   time_Parse (FindStringSubmatch logRegex example_line ! 2) = Inr example_time \<and>
   parseNginxLog clock1 example_line = parseNginxLog clock2 example_line \<and>
   map_sum id (\<lambda>e. e\<lparr>Timestamp := example_time\<rparr>) (parseNginxLog clock1 untimed_line) =
   map_sum id (\<lambda>e. e\<lparr>Timestamp := example_time\<rparr>) (parseNginxLog clock2 untimed_line)"
proof -
  have a: "\<not> combined_shape bad_size_line" unfolding combined_shape_iff by code_simp
  have b: "time_Parse (FindStringSubmatch logRegex example_line ! 2) = Inr example_time"
    by code_simp
  have c: "FindStringSubmatch logRegex example_line =
     example_line # tl (FindStringSubmatch logRegex example_line)"
    by code_simp
  from b have b': "time_Parse (tl (FindStringSubmatch logRegex example_line) ! 1) = Inr example_time"
    by (subst (asm) c) simp
  from parseNginxLog_clock[of bad_size_line clock1 clock2 example_time] a
  have 1: "parseNginxLog clock1 bad_size_line = parseNginxLog clock2 bad_size_line" by blast
  from parseNginxLog_clock[of example_line clock1 clock2 example_time] c b'
  have 2: "parseNginxLog clock1 example_line = parseNginxLog clock2 example_line" by blast
  from parseNginxLog_clock[of untimed_line clock1 clock2 example_time]
  have 3: "map_sum id (\<lambda>e. e\<lparr>Timestamp := example_time\<rparr>) (parseNginxLog clock1 untimed_line) =
   map_sum id (\<lambda>e. e\<lparr>Timestamp := example_time\<rparr>) (parseNginxLog clock2 untimed_line)" by blast
  from a b 1 2 3 show ?thesis by (simp only: simp_thms)
qed

theorem parseNginxLog_clock_counterexample:
  "parseNginxLog clock1 untimed_line \<noteq> parseNginxLog clock2 untimed_line"
  by code_simp

section \<open>Properties of the hub, the sessions and the tailer\<close>

subsection \<open>The broadcast\<close>

lemma attempts_write_all: "attempts (write_all wr message snap) = map (\<lambda>c. (c, message)) snap"
  by (induction snap) (auto simp: attempts_def)

lemma closes_write_all: "closes (write_all wr message snap) = filter (\<lambda>c. \<not> wr c message) snap"
  by (induction snap) (auto simp: closes_def)

lemma submits_write_all:
  "submits (write_all wr message snap) = map unregister (filter (\<lambda>c. \<not> wr c message) snap)"
  by (induction snap) (auto simp: submits_def)

lemma marshals_write_all: "marshals (write_all wr message snap) = []"
  by (induction snap) (auto simp: marshals_def)

lemma count_list_pairs: "count_list (map (\<lambda>c. (c, m)) xs) (x, m) = count_list xs x"
  by (induction xs) auto

lemma count_list_distinct: "distinct xs \<Longrightarrow> x \<in> set xs \<Longrightarrow> count_list xs x = 1"
  by (induction xs) (auto simp: count_list_0_iff)

lemma broadcast_marshalled:
  assumes snap: "is_snapshot registry snap"
    and ok: "marshal \<lparr>Type = ''log_entry'', Data = logEntry\<rparr> = Inr message"
  shows "marshals (broadcastLogEntry marshal wr snap logEntry) =
           [\<lparr>Type = ''log_entry'', Data = logEntry\<rparr>] \<and>
         attempts (broadcastLogEntry marshal wr snap logEntry) = map (\<lambda>c. (c, message)) snap \<and>
         length (attempts (broadcastLogEntry marshal wr snap logEntry)) = card (dom registry) \<and>
         (\<forall>c \<in> dom registry.
            count_list (attempts (broadcastLogEntry marshal wr snap logEntry)) (c, message) = 1) \<and>
         closes (broadcastLogEntry marshal wr snap logEntry) = filter (\<lambda>c. \<not> wr c message) snap \<and>
         submits (broadcastLogEntry marshal wr snap logEntry) =
           map unregister (filter (\<lambda>c. \<not> wr c message) snap) \<and>
         (\<forall>k < length snap. \<not> wr (snap ! k) message \<longrightarrow>
            drop (Suc k) (attempts (broadcastLogEntry marshal wr snap logEntry)) =
              map (\<lambda>c. (c, message)) (drop (Suc k) snap))"
proof -
  let ?tr = "broadcastLogEntry marshal wr snap logEntry"
  have tr: "?tr = Marshal \<lparr>Type = ''log_entry'', Data = logEntry\<rparr> # write_all wr message snap"
    using ok by (simp add: broadcastLogEntry_def)
  have a: "attempts ?tr = map (\<lambda>c. (c, message)) snap"
    using attempts_write_all[of wr message snap] by (simp add: tr attempts_def)
  have m: "marshals ?tr = [\<lparr>Type = ''log_entry'', Data = logEntry\<rparr>]"
    using marshals_write_all[of wr message snap] by (simp add: tr marshals_def)
  have c: "closes ?tr = filter (\<lambda>c. \<not> wr c message) snap"
    using closes_write_all[of wr message snap] by (simp add: tr closes_def)
  have s: "submits ?tr = map unregister (filter (\<lambda>c. \<not> wr c message) snap)"
    using submits_write_all[of wr message snap] by (simp add: tr submits_def)
  have n: "length (attempts ?tr) = card (dom registry)"
    using snap by (simp add: a is_snapshot_def distinct_card[symmetric])
  have one: "\<forall>c \<in> dom registry. count_list (attempts ?tr) (c, message) = 1"
    using snap by (simp add: a count_list_pairs count_list_distinct is_snapshot_def)
  have rest: "\<forall>k < length snap. \<not> wr (snap ! k) message \<longrightarrow>
      drop (Suc k) (attempts ?tr) = map (\<lambda>c. (c, message)) (drop (Suc k) snap)"
    by (simp add: a drop_map)
  from m a n one c s rest show ?thesis by (simp only: simp_thms)
qed

lemma broadcast_not_marshalled:
  assumes "marshal \<lparr>Type = ''log_entry'', Data = logEntry\<rparr> = Inl err"
  shows "broadcastLogEntry marshal wr snap logEntry =
           [Marshal \<lparr>Type = ''log_entry'', Data = logEntry\<rparr>]"
  using assms by (simp add: broadcastLogEntry_def)


lemma three_clients_snapshot: "is_snapshot three_clients [2, 3, 1]"
  by (auto simp: is_snapshot_def three_clients_def)



subsection \<open>The registry beside a broadcast\<close>

lemma hub_run_invariant:
  "hub_run h mvs = Some (h', evs) \<Longrightarrow> gone \<inter> dom (clients h) = {} \<Longrightarrow>
   set (pending h) \<inter> barred = {} \<Longrightarrow> no_write_if_gone_at_snapshot gone barred evs"
proof (induction mvs arbitrary: h evs gone barred)
  case Nil
  then show ?case by simp
next
  case (Cons mv mvs)
  from Cons.prems(1) obtain h1 ev evs1 where
    step: "hub_step mv h = Some (h1, ev)" and run: "hub_run h1 mvs = Some (h', evs1)"
    and evs: "evs = ev # evs1"
    by (auto split: option.splits)
  show ?case
  proof (cases mv)
    case (Process a)
    with step have h1: "h1 = h\<lparr>clients := manageClients_step a (clients h)\<rparr>" and ev: "ev = Processed a"
      by auto
    have "gone_after a gone \<inter> dom (clients h1) = {}"
      using Cons.prems(2) by (auto simp: h1 gone_after_def manageClients_step_def split: if_splits)
    moreover have "set (pending h1) \<inter> barred = {}" using Cons.prems(3) by (simp add: h1)
    ultimately show ?thesis using Cons.IH[OF run] by (simp add: evs ev)
  next
    case (Snapshot snap)
    with step have h1: "h1 = h\<lparr>pending := snap\<rparr>" and ev: "ev = Snapshotted snap"
      and s: "is_snapshot (clients h) snap"
      by (auto split: if_splits)
    have "set (pending h1) \<inter> gone = {}"
      using Cons.prems(2) s by (auto simp: h1 is_snapshot_def)
    moreover have "gone \<inter> dom (clients h1) = {}" using Cons.prems(2) by (simp add: h1)
    ultimately show ?thesis using Cons.IH[OF run] by (simp add: evs ev)
  next
    case (WriteNext ok)
    with step obtain c rest where p: "pending h = c # rest" and h1: "h1 = h\<lparr>pending := rest\<rparr>"
      and ev: "ev = Wrote c ok"
      by (auto split: list.splits)
    have "c \<notin> barred" "set (pending h1) \<inter> barred = {}"
      using Cons.prems(3) p by (auto simp: h1)
    moreover have "gone \<inter> dom (clients h1) = {}" using Cons.prems(2) by (simp add: h1)
    ultimately show ?thesis using Cons.IH[OF run] by (simp add: evs ev)
  qed
qed



lemma sample_hub_run:
  "map_option snd (hub_run hub_init
      [Process (register 1), Process (register 2), Process (unregister 1), Snapshot [2],
       WriteNext True, Process (register 1), Snapshot [2, 1], WriteNext False,
       Process (unregister 2), WriteNext True]) =
   Some [Processed (register 1), Processed (register 2), Processed (unregister 1),
         Snapshotted [2], Wrote 2 True, Processed (register 1), Snapshotted [2, 1],
         Wrote 2 False, Processed (unregister 2), Wrote 1 True]"
  by (simp add: hub_init_def is_snapshot_def manageClients_step_def register_def
      unregister_def insert_commute)



subsection \<open>The connection session\<close>

lemma session_loop_ping_failure:
  "Done \<notin> set ins \<Longrightarrow>
   snd (session_loop c (ins @ Tick False # rest)) = Closed \<and>
   submits (fst (session_loop c (ins @ Tick False # rest))) = [] \<and>
   closes (fst (session_loop c (ins @ Tick False # rest))) = [c]"
proof (induction ins)
  case Nil
  then show ?case by (simp add: submits_def closes_def)
next
  case (Cons i ins)
  then show ?case by (cases i) (auto simp: submits_def closes_def)
qed

lemma session_loop_done:
  "list_all (\<lambda>i. i = Tick True) ins \<Longrightarrow>
   snd (session_loop c (ins @ Done # rest)) = Closed \<and>
   submits (fst (session_loop c (ins @ Done # rest))) = [unregister c] \<and>
   closes (fst (session_loop c (ins @ Done # rest))) = [c]"
  by (induction ins) (auto simp: submits_def closes_def)

text \<open>
  Claim C7 against the code.  A session that ends on the closing of \<open>done\<close> submits
  its unregistration, stops the ticker and closes the connection.  A session whose
  ping cannot be written closes the connection as well, and submits nothing: of its
  handle only the registration was ever submitted.
\<close>

theorem session_ping_failure_submits_nothing:
  "(list_all (\<lambda>i. i = Tick True) ins \<longrightarrow>
      snd (MakeWebSocketHandler True c (ins @ Done # rest)) = Closed \<and>
      submits (fst (MakeWebSocketHandler True c (ins @ Done # rest))) = [register c, unregister c] \<and>
      closes (fst (MakeWebSocketHandler True c (ins @ Done # rest))) = [c]) \<and>
   (Done \<notin> set ins \<longrightarrow>
      snd (MakeWebSocketHandler True c (ins @ Tick False # rest)) = Closed \<and>
      submits (fst (MakeWebSocketHandler True c (ins @ Tick False # rest))) = [register c] \<and>
      closes (fst (MakeWebSocketHandler True c (ins @ Tick False # rest))) = [c])"
  using session_loop_ping_failure[of ins c rest] session_loop_done[of ins c rest]
  by (simp add: MakeWebSocketHandler_def submits_def closes_def)

theorem session_ping_failure_witness:
  "MakeWebSocketHandler True 7 [Tick True, Done] =
     ([Submit (register 7), PingMessage 7, Submit (unregister 7), StopTicker, CloseConn 7],
      Closed) \<and>
   MakeWebSocketHandler True 7 [Tick True, Tick False] =
     ([Submit (register 7), PingMessage 7, PingMessage 7, StopTicker, CloseConn 7], Closed) \<and>
   submits (fst (MakeWebSocketHandler True 7 [Tick True, Tick False])) = [register 7] \<and>
   closes (fst (MakeWebSocketHandler True 7 [Tick True, Tick False])) = [7]"
  using session_ping_failure_submits_nothing[of "[Tick True]" 7 "[]"]
  by (simp add: MakeWebSocketHandler_def)

subsection \<open>One line of the log\<close>

text \<open>
  Claim C5, as the code has it.  An entry is sent only for a line that parses, whose
  address parses and whose lookup ends without error; the entry carries the country
  of the record found, and blank country fields when no record covers the address.
  A line whose address does not parse, or whose lookup ends in an error, is not
  sent.
\<close>

theorem processLine_forwarding:
  "(processLine ParseAddr db now line = Sent e \<longrightarrow>
      (\<exists>entry ip. parseNginxLog now (TrimSpace line) = Inr entry \<and>
         ParseAddr (IP entry) = Inr ip \<and>
         (db ip = NotFound \<and> e = entry\<lparr>Country := [], CountryFull := []\<rparr> \<or>
          (\<exists>r. db ip = Found r \<and>
             e = entry\<lparr>Country := ISOCode r, CountryFull := index_or_empty (Names r) ''en''\<rparr>)))) \<and>
   (\<forall>entry err. parseNginxLog now (TrimSpace line) = Inr entry \<and> ParseAddr (IP entry) = Inl err \<longrightarrow>
      processLine ParseAddr db now line \<noteq> Sent e) \<and>
   (\<forall>entry ip err. parseNginxLog now (TrimSpace line) = Inr entry \<and> ParseAddr (IP entry) = Inr ip \<and>
      db ip = LookupError err \<longrightarrow> processLine ParseAddr db now line \<noteq> Sent e) \<and>
   (\<forall>entry ip. TrimSpace line \<noteq> [] \<and> parseNginxLog now (TrimSpace line) = Inr entry \<and>
      \<not> Contains (URL entry) ''nginxviz'' \<and> ParseAddr (IP entry) = Inr ip \<and> db ip = NotFound \<longrightarrow>
      processLine ParseAddr db now line = Sent (entry\<lparr>Country := [], CountryFull := []\<rparr>))"
  by (auto simp: processLine_def Let_def Decode_def index_or_empty_def
      split: sum.splits if_splits lookup_result.splits)


lemma example_line_processed:
  "parseNginxLog clock1 (TrimSpace (example_line @ nl)) = Inr example_entry \<and>
   TrimSpace (example_line @ nl) \<noteq> [] \<and>
   \<not> Contains (URL example_entry) ''nginxviz'' \<and>
   IP example_entry = ''203.0.113.5'' \<and>
   Country example_entry = [] \<and> CountryFull example_entry = []"
  by code_simp

theorem processLine_forwarding_witness:
  "processLine any_addr empty_db clock1 (example_line @ nl) =
     Sent (example_entry\<lparr>Country := [], CountryFull := []\<rparr>) \<and>
   processLine no_addr sample_db clock1 (example_line @ nl) \<noteq> Sent example_entry \<and>
   processLine any_addr broken_db clock1 (example_line @ nl) \<noteq> Sent example_entry"
proof -
  note th = processLine_forwarding[of _ _ clock1 "example_line @ nl" example_entry]
  have a: "any_addr (IP example_entry) = Inr ''203.0.113.5''"
    using example_line_processed by (simp add: any_addr_def)
  have 1: "processLine any_addr empty_db clock1 (example_line @ nl) =
     Sent (example_entry\<lparr>Country := [], CountryFull := []\<rparr>)"
    using th[of any_addr empty_db] example_line_processed a by (simp add: empty_db_def)
  have 2: "processLine no_addr sample_db clock1 (example_line @ nl) \<noteq> Sent example_entry"
    using th[of no_addr sample_db] example_line_processed by (auto simp: no_addr_def)
  have 3: "processLine any_addr broken_db clock1 (example_line @ nl) \<noteq> Sent example_entry"
    using th[of any_addr broken_db] example_line_processed a by (auto simp: broken_db_def)
  from 1 2 3 show ?thesis by (simp only: simp_thms)
qed

theorem processLine_no_record_counterexample:
  "empty_db ''203.0.113.5'' = NotFound \<and>
   processLine any_addr empty_db clock1 (example_line @ nl) = Sent example_entry \<and>
   Country example_entry = [] \<and> CountryFull example_entry = []"
proof -
  have "empty_db ''203.0.113.5'' = NotFound" by (simp add: empty_db_def)
  moreover have "processLine any_addr empty_db clock1 (example_line @ nl) = Sent example_entry \<and>
    Country example_entry = [] \<and> CountryFull example_entry = []"
    by code_simp
  ultimately show ?thesis by (simp only: simp_thms)
qed

subsection \<open>The tailer\<close>





lemma tail_move_live:
  assumes "live t = (if pc t = Returned then 0 else 1)"
  shows "live (tail_move ParseAddr db mv t) = (if pc (tail_move ParseAddr db mv t) = Returned then 0 else 1)"
proof (cases mv)
  case (Session may_open now)
  with assms show ?thesis
    by (auto simp: watchLogFile_step_def give_up_def getInode_def
        split: pc.splits option.splits prod.splits outcome.splits)
next
  case Ticker
  with assms show ?thesis by (auto simp: inodeChecker_tick_def getInode_def split: option.splits)
next
  case (Append i bs)
  with assms show ?thesis by simp
next
  case (Replace p)
  with assms show ?thesis by simp
qed

lemma tail_run_live:
  "live t = (if pc t = Returned then 0 else 1) \<Longrightarrow>
   live (tail_run ParseAddr db t mvs) = (if pc (tail_run ParseAddr db t mvs) = Returned then 0 else 1)"
proof (induction mvs arbitrary: t)
  case Nil
  then show ?case by (simp add: tail_run_def)
next
  case (Cons mv mvs)
  have "live (tail_move ParseAddr db mv t) =
      (if pc (tail_move ParseAddr db mv t) = Returned then 0 else 1)"
    using Cons.prems by (rule tail_move_live)
  from Cons.IH[OF this] show ?case by (simp add: tail_run_def)
qed



lemma rotation_moves_pc: "pc (tail_run any_addr sample_db tail_init rotation_moves) = AtSelect"
  by code_simp



end
